theory Spec2Isabelle
  imports Main "HOL-Library.Word"
begin

section \<open>Values, callers and failures\<close>

text \<open>
  Solidity's \<open>uint256\<close>, \<open>uint16\<close> and \<open>address\<close> are words of 256, 16 and 160 bits.
  Arithmetic is the checked arithmetic of Solidity 0.8: an operation whose
  mathematical result does not fit reverts the call.
\<close>

type_synonym uint256 = "256 word"
type_synonym uint16 = "16 word"
type_synonym address = "160 word"

text \<open>
  Every \<open>require\<close> of the contract is one failure value, named as the specification
  names it; the revert string of the source is given beside each.
\<close>

datatype error =
    ZeroTokenAddress         \<comment> \<open>"token zero"\<close>
  | InvalidQuorum            \<comment> \<open>"invalid quorum"\<close>
  | ZeroVotingPeriod         \<comment> \<open>"voting period zero"\<close>
  | ProposalNotFound         \<comment> \<open>"proposal not found"\<close>
  | ProposalCanceled         \<comment> \<open>"proposal canceled"\<close>
  | VotingNotStarted         \<comment> \<open>"voting not started"\<close>
  | VotingClosed             \<comment> \<open>"voting ended"\<close>
  | AlreadyVoted             \<comment> \<open>"already voted"\<close>
  | NoVotingPower            \<comment> \<open>"no voting power at snapshot"\<close>
  | AlreadyExecuted          \<comment> \<open>"already executed"\<close>
  | AlreadyCanceled          \<comment> \<open>"already canceled"\<close>
  | VotingNotEnded           \<comment> \<open>"voting not ended"\<close>
  | ProposalNotSuccessful    \<comment> \<open>"proposal not successful"\<close>
  | Unauthorized             \<comment> \<open>the \<open>onlyOwner\<close> modifier\<close>
  | ReentrantCall            \<comment> \<open>the \<open>nonReentrant\<close> modifier\<close>
  | FutureSequenceQuery      \<comment> \<open>a historical lookup at a sequence number not yet past\<close>
  | InvalidRecipient
  | InsufficientBalance
  | ArithmeticPanic          \<comment> \<open>checked arithmetic, \<open>Panic(0x11)\<close>\<close>

text \<open>What a call sees of its transaction: \<open>msg.sender\<close> and \<open>block.number\<close>.\<close>

record env =
  msg_sender :: address
  block_number :: uint256

definition checked_add :: "uint256 \<Rightarrow> uint256 \<Rightarrow> error + uint256" where
  "checked_add a b = (if uint a + uint b < 2 ^ 256 then Inr (a + b) else Inl ArithmeticPanic)"

definition checked_sub :: "uint256 \<Rightarrow> uint256 \<Rightarrow> error + uint256" where
  "checked_sub a b = (if b \<le> a then Inr (a - b) else Inl ArithmeticPanic)"

definition checked_mul :: "uint256 \<Rightarrow> uint256 \<Rightarrow> error + uint256" where
  "checked_mul a b = (if uint a * uint b < 2 ^ 256 then Inr (a * b) else Inl ArithmeticPanic)"

section \<open>The voting token's checkpoint ledger\<close>

text \<open>
  \<open>TestToken\<close> inherits its ledger from the imported \<open>ERC20Votes\<close>; the source of the
  repository only forwards to it (\<open>_update\<close> calls \<open>super._update\<close>). The ledger is
  therefore written from the specification's data model (section 3) and component design
  (section 4.1); every definition taken from there says so.

  Modelled from the spec: a checkpoint is a pair "(sequence_number,
  cumulative_voting_weight)".
\<close>

type_synonym checkpoint = "uint256 \<times> uint256"

text \<open>
  Modelled from the spec: the binary search of \<open>getPastVotes\<close> and
  \<open>getPastTotalSupply\<close> (the checkpoint library is not among the sources). It returns
  the number of entries, among the first \<open>high\<close>, that are not after \<open>key\<close>, provided
  the first \<open>low\<close> are not.
\<close>

function upperBinaryLookup :: "checkpoint list \<Rightarrow> uint256 \<Rightarrow> nat \<Rightarrow> nat \<Rightarrow> nat" where
  "upperBinaryLookup cps key low high =
     (if low < high then
        (let mid = (low + high) div 2 in
         if key < fst (cps ! mid) then upperBinaryLookup cps key low mid
         else upperBinaryLookup cps key (mid + 1) high)
      else high)"
  by pat_completeness auto
termination
  by (relation "measure (\<lambda>(cps, key, low, high). high - low)") auto

declare upperBinaryLookup.simps [simp del]

text \<open>
  Modelled from the spec: "a query for weight at sequence S returns the weight recorded
  at the latest checkpoint with sequence number \<open>\<le>\<close> S, or zero if none exists", found by
  the binary search.
\<close>

definition upperLookup :: "checkpoint list \<Rightarrow> uint256 \<Rightarrow> uint256" where
  "upperLookup cps key =
     (let pos = upperBinaryLookup cps key 0 (length cps) in
      if pos = 0 then 0 else snd (cps ! (pos - 1)))"

text \<open>
  Modelled from the spec: the current weight of a series, its "latest checkpoint or
  zero".
\<close>

definition latest :: "checkpoint list \<Rightarrow> uint256" where
  "latest cps = (if cps = [] then 0 else snd (last cps))"

text \<open>The checkpoints of a series with sequence number \<open>\<le> key\<close>.\<close>

definition not_after :: "uint256 \<Rightarrow> checkpoint list \<Rightarrow> checkpoint list" where
  "not_after key cps = filter (\<lambda>c. fst c \<le> key) cps"

text \<open>
  The same query in the specification's words, with no search: the weight of the latest
  checkpoint among those not after \<open>key\<close>, or zero.
\<close>

definition latest_at :: "checkpoint list \<Rightarrow> uint256 \<Rightarrow> uint256" where
  "latest_at cps key = latest (not_after key cps)"

text \<open>The invariant of a series: sequence numbers strictly increase.\<close>

definition increasing :: "checkpoint list \<Rightarrow> bool" where
  "increasing cps = sorted_wrt (<) (map fst cps)"

text \<open>
  Modelled from the spec: the token's state is the account balance ledger, the total
  supply, the delegation map (the null identity \<open>0\<close> is "none"), one checkpoint series per
  account and one for the total supply; \<open>tokenOwner\<close> is the controlling authority of
  \<open>mint\<close> and \<open>burn\<close>.
\<close>

record VotingToken =
  balanceOf :: "address \<Rightarrow> uint256"
  totalSupply :: uint256
  delegates :: "address \<Rightarrow> address"
  delegateCheckpoints :: "address \<Rightarrow> checkpoint list"
  totalCheckpoints :: "checkpoint list"
  tokenOwner :: address

text \<open>
  Modelled from the spec: \<open>getVotes\<close> "returns the account's current aggregate delegated
  weight (latest checkpoint or zero)".
\<close>

definition getVotes :: "VotingToken \<Rightarrow> address \<Rightarrow> uint256" where
  "getVotes tok account = latest (delegateCheckpoints tok account)"

text \<open>
  Modelled from the spec: a checkpoint is written at the current sequence number; "if a
  checkpoint already exists for the current sequence number, it is overwritten in place
  rather than duplicated", otherwise it is appended.
\<close>

definition push :: "checkpoint list \<Rightarrow> uint256 \<Rightarrow> uint256 \<Rightarrow> checkpoint list" where
  "push cps key v =
     (if key \<in> fst ` set cps then map (\<lambda>c. if fst c = key then (key, v) else c) cps
      else cps @ [(key, v)])"

text \<open>
  Modelled from the spec: the delegate of the debited side, "if a delegation exists and
  differs from none", gets a checkpoint at the current sequence number "reflecting the
  delegate's new cumulative weight", its latest weight less \<open>amount\<close>.
\<close>

definition debitVotes :: "env \<Rightarrow> address \<Rightarrow> uint256 \<Rightarrow> VotingToken \<Rightarrow> error + VotingToken" where
  "debitVotes e who amount tok =
     (if who = 0 then Inr tok
      else case checked_sub (latest (delegateCheckpoints tok who)) amount of
        Inl err \<Rightarrow> Inl err
      | Inr w \<Rightarrow> Inr (tok\<lparr>delegateCheckpoints := (delegateCheckpoints tok)
                   (who := push (delegateCheckpoints tok who) (block_number e) w)\<rparr>))"

text \<open>
  Modelled from the spec: the same for the delegate of the credited side, whose new
  cumulative weight is its latest weight plus \<open>amount\<close>.
\<close>

definition creditVotes :: "env \<Rightarrow> address \<Rightarrow> uint256 \<Rightarrow> VotingToken \<Rightarrow> error + VotingToken" where
  "creditVotes e who amount tok =
     (if who = 0 then Inr tok
      else case checked_add (latest (delegateCheckpoints tok who)) amount of
        Inl err \<Rightarrow> Inl err
      | Inr w \<Rightarrow> Inr (tok\<lparr>delegateCheckpoints := (delegateCheckpoints tok)
                   (who := push (delegateCheckpoints tok who) (block_number e) w)\<rparr>))"

text \<open>
  Modelled from the spec: checkpoints are written "whenever a delegate's effective weight
  changes", that is, when weight moves between two different delegates and the amount
  is not zero; then the one is debited and the other credited.
\<close>

definition moveVotingPower ::
  "env \<Rightarrow> address \<Rightarrow> address \<Rightarrow> uint256 \<Rightarrow> VotingToken \<Rightarrow> error + VotingToken" where
  "moveVotingPower e src dst amount tok =
     (if src = dst \<or> amount = 0 then Inr tok
      else case debitVotes e src amount tok of
        Inl err \<Rightarrow> Inl err
      | Inr tok1 \<Rightarrow> creditVotes e dst amount tok1)"

text \<open>
  Modelled from the spec: \<open>transfer\<close> "fails with InvalidRecipient on transfer to the
  null identity" and "with InsufficientBalance when debiting more than held"; it moves
  the balance and, with it, the voting weight from the sender's delegate to the
  recipient's.
\<close>

definition transfer :: "env \<Rightarrow> address \<Rightarrow> uint256 \<Rightarrow> VotingToken \<Rightarrow> error + VotingToken" where
  "transfer e to amount tok =
     (let from = msg_sender e in
      if to = 0 then Inl InvalidRecipient
      else if balanceOf tok from < amount then Inl InsufficientBalance
      else
        (let b1 = (balanceOf tok)(from := balanceOf tok from - amount) in
         case checked_add (b1 to) amount of
           Inl err \<Rightarrow> Inl err
         | Inr credited \<Rightarrow>
             moveVotingPower e (delegates tok from) (delegates tok to) amount
               (tok\<lparr>balanceOf := b1(to := credited)\<rparr>)))"

text \<open>
  Modelled from the spec: minting fails with \<open>InvalidRecipient\<close> on the null identity,
  raises the total supply and the recipient's balance, writes the total-supply
  checkpoint ("appended on mint/burn") and credits the recipient's delegate.
\<close>

definition mint_internal :: "env \<Rightarrow> address \<Rightarrow> uint256 \<Rightarrow> VotingToken \<Rightarrow> error + VotingToken" where
  "mint_internal e to amount tok =
     (if to = 0 then Inl InvalidRecipient
      else case checked_add (totalSupply tok) amount of
        Inl err \<Rightarrow> Inl err
      | Inr supply \<Rightarrow>
          (case checked_add (balanceOf tok to) amount of
             Inl err \<Rightarrow> Inl err
           | Inr credited \<Rightarrow>
               moveVotingPower e 0 (delegates tok to) amount
                 (tok\<lparr>balanceOf := (balanceOf tok)(to := credited), totalSupply := supply,
                      totalCheckpoints := push (totalCheckpoints tok) (block_number e) supply\<rparr>)))"

text \<open>
  Modelled from the spec: burning fails with \<open>InsufficientBalance\<close>, lowers the total
  supply and the holder's balance, writes the total-supply checkpoint and debits the
  holder's delegate.
\<close>

definition burn_internal :: "env \<Rightarrow> address \<Rightarrow> uint256 \<Rightarrow> VotingToken \<Rightarrow> error + VotingToken" where
  "burn_internal e from amount tok =
     (if balanceOf tok from < amount then Inl InsufficientBalance
      else case checked_sub (totalSupply tok) amount of
        Inl err \<Rightarrow> Inl err
      | Inr supply \<Rightarrow>
          moveVotingPower e (delegates tok from) 0 amount
            (tok\<lparr>balanceOf := (balanceOf tok)(from := balanceOf tok from - amount),
                 totalSupply := supply,
                 totalCheckpoints := push (totalCheckpoints tok) (block_number e) supply\<rparr>))"

text \<open>
  Modelled from the spec: \<open>delegate\<close> "moves voter's current balance's contribution from
  the old delegate's weight to the new delegate's weight, writing checkpoints for both
  old and new delegate at the current sequence number".
\<close>

definition delegate :: "env \<Rightarrow> address \<Rightarrow> VotingToken \<Rightarrow> error + VotingToken" where
  "delegate e newDelegate tok =
     (let voter = msg_sender e; oldDelegate = delegates tok voter in
      moveVotingPower e oldDelegate newDelegate (balanceOf tok voter)
        (tok\<lparr>delegates := (delegates tok)(voter := newDelegate)\<rparr>))"

text \<open>
  The entry points that \<open>TestToken\<close> itself declares. Its constructor makes the deployer
  the owner and mints \<open>initialSupply\<close> to the deployer when that is not zero.
\<close>

definition emptyToken :: "address \<Rightarrow> VotingToken" where
  "emptyToken deployer = \<lparr>balanceOf = (\<lambda>_. 0), totalSupply = 0, delegates = (\<lambda>_. 0),
     delegateCheckpoints = (\<lambda>_. []), totalCheckpoints = [], tokenOwner = deployer\<rparr>"

definition token_constructor :: "env \<Rightarrow> uint256 \<Rightarrow> error + VotingToken" where
  "token_constructor e initialSupply =
     (if 0 < initialSupply then mint_internal e (msg_sender e) initialSupply (emptyToken (msg_sender e))
      else Inr (emptyToken (msg_sender e)))"

text \<open>\<open>mint(to, amount)\<close> and \<open>burn(from, amount)\<close> are the owner's; \<open>burn(amount)\<close> is the holder's own.\<close>

definition mint :: "env \<Rightarrow> address \<Rightarrow> uint256 \<Rightarrow> VotingToken \<Rightarrow> error + VotingToken" where
  "mint e to amount tok =
     (if msg_sender e \<noteq> tokenOwner tok then Inl Unauthorized else mint_internal e to amount tok)"

definition burn :: "env \<Rightarrow> address \<Rightarrow> uint256 \<Rightarrow> VotingToken \<Rightarrow> error + VotingToken" where
  "burn e from amount tok =
     (if msg_sender e \<noteq> tokenOwner tok then Inl Unauthorized else burn_internal e from amount tok)"

definition burn_own :: "env \<Rightarrow> uint256 \<Rightarrow> VotingToken \<Rightarrow> error + VotingToken" where
  "burn_own e amount tok = burn_internal e (msg_sender e) amount tok"

text \<open>
  Modelled from the spec: \<open>getPastVotes\<close> "fails with FutureSequenceQuery if the queried
  sequence number is \<open>\<ge>\<close> the current sequence number", and otherwise searches the
  account's series.
\<close>

definition getPastVotes :: "env \<Rightarrow> VotingToken \<Rightarrow> address \<Rightarrow> uint256 \<Rightarrow> error + uint256" where
  "getPastVotes e tok account sequenceNumber =
     (if block_number e \<le> sequenceNumber then Inl FutureSequenceQuery
      else Inr (upperLookup (delegateCheckpoints tok account) sequenceNumber))"

text \<open>
  Modelled from the spec: \<open>getPastTotalSupply\<close> is the "identical search against the
  total-supply checkpoint series".
\<close>

definition getPastTotalSupply :: "env \<Rightarrow> VotingToken \<Rightarrow> uint256 \<Rightarrow> error + uint256" where
  "getPastTotalSupply e tok sequenceNumber =
     (if block_number e \<le> sequenceNumber then Inl FutureSequenceQuery
      else Inr (upperLookup (totalCheckpoints tok) sequenceNumber))"

section \<open>The governance contract \<open>DAOVoting\<close>\<close>

datatype ProposalState = Active | Succeeded | Defeated | Canceled | Executed | Unknown

text \<open>The struct \<open>Proposal\<close>; its field \<open>id\<close> is \<open>id_p\<close> here.\<close>

record Proposal =
  id_p :: uint256
  proposer :: address
  description :: string
  snapshotBlock :: uint256
  startBlock :: uint256
  endBlock :: uint256
  forVotes :: uint256
  againstVotes :: uint256
  canceled :: bool
  executed :: bool

text \<open>
  The storage of the contract. A Solidity mapping is a total function whose unwritten
  slots read as zero, so \<open>proposals\<close> starts as the all-zero proposal everywhere.
  \<open>owner\<close> is the field behind \<open>onlyOwner\<close> and \<open>entered\<close> the latch behind
  \<open>nonReentrant\<close> (both inherited, not among the sources).
\<close>

record DAOVoting =
  governanceToken :: address
  quorumNumerator :: uint16
  votingPeriodBlocks :: uint256
  nextProposalId :: uint256
  proposals :: "uint256 \<Rightarrow> Proposal"
  hasVoted :: "uint256 \<Rightarrow> address \<Rightarrow> bool"
  owner :: address
  entered :: bool

definition QUORUM_DENOMINATOR :: uint16 where
  "QUORUM_DENOMINATOR = 100"

definition zeroProposal :: Proposal where
  "zeroProposal = \<lparr>id_p = 0, proposer = 0, description = [], snapshotBlock = 0, startBlock = 0,
     endBlock = 0, forVotes = 0, againstVotes = 0, canceled = False, executed = False\<rparr>"

text \<open>
  Modelled from the spec: the reentrancy guard is "a per-call boolean latch": a guarded
  call fails when the latch is set, runs its body with the latch set and clears it on
  return. A failing body reverts the whole call, latch included.
\<close>

definition nonReentrant :: "(DAOVoting \<Rightarrow> error + DAOVoting) \<Rightarrow> DAOVoting \<Rightarrow> error + DAOVoting" where
  "nonReentrant body s =
     (if entered s then Inl ReentrantCall
      else case body (s\<lparr>entered := True\<rparr>) of
             Inl err \<Rightarrow> Inl err
           | Inr s' \<Rightarrow> Inr (s'\<lparr>entered := False\<rparr>))"

text \<open>
  Modelled from the spec: a privileged operation is "a simple equality check against a
  stored authority field".
\<close>

definition onlyOwner :: "env \<Rightarrow> (DAOVoting \<Rightarrow> error + DAOVoting) \<Rightarrow> DAOVoting \<Rightarrow> error + DAOVoting" where
  "onlyOwner e body s = (if msg_sender e \<noteq> owner s then Inl Unauthorized else body s)"

text \<open>
  The constructor checks its three arguments in the source's order, makes the deployer
  the owner and starts the identities at 1.
\<close>

definition constructor :: "env \<Rightarrow> address \<Rightarrow> uint16 \<Rightarrow> uint256 \<Rightarrow> error + DAOVoting" where
  "constructor e token_addr quorum period =
     (if token_addr = 0 then Inl ZeroTokenAddress
      else if \<not> (0 < quorum \<and> quorum \<le> QUORUM_DENOMINATOR) then Inl InvalidQuorum
      else if \<not> 0 < period then Inl ZeroVotingPeriod
      else Inr \<lparr>governanceToken = token_addr, quorumNumerator = quorum,
                votingPeriodBlocks = period, nextProposalId = 1,
                proposals = (\<lambda>_. zeroProposal), hasVoted = (\<lambda>_ _. False),
                owner = msg_sender e, entered = False\<rparr>)"

text \<open>
  \<open>createProposal\<close>: the sum \<open>block.number + votingPeriodBlocks\<close> and the increment
  \<open>_nextProposalId++\<close> are checked. The result is the new identity and the new storage.
\<close>

definition createProposal :: "env \<Rightarrow> string \<Rightarrow> DAOVoting \<Rightarrow> error + (uint256 \<times> DAOVoting)" where
  "createProposal e descr s =
     (let snapshot = block_number e; start = block_number e in
      case checked_add (block_number e) (votingPeriodBlocks s) of
        Inl err \<Rightarrow> Inl err
      | Inr end_block \<Rightarrow>
          (let pid = nextProposalId s in
           case checked_add (nextProposalId s) 1 of
             Inl err \<Rightarrow> Inl err
           | Inr next_id \<Rightarrow>
               Inr (pid, s\<lparr>nextProposalId := next_id,
                           proposals := (proposals s)(pid :=
                             \<lparr>id_p = pid, proposer = msg_sender e, description = descr,
                              snapshotBlock = snapshot, startBlock = start, endBlock = end_block,
                              forVotes = 0, againstVotes = 0,
                              canceled = False, executed = False\<rparr>)\<rparr>)))"

text \<open>
  \<open>vote\<close>: the five checks in the source's order, then the weight of the caller at the
  proposal's snapshot (a call into the token that can fail), the check that it is not
  zero, the receipt and the checked addition to the tally chosen by \<open>support\<close>.
\<close>

definition vote_body :: "env \<Rightarrow> VotingToken \<Rightarrow> uint256 \<Rightarrow> bool \<Rightarrow> DAOVoting \<Rightarrow> error + DAOVoting" where
  "vote_body e tok proposalId support s =
     (let p = proposals s proposalId in
      if id_p p = 0 then Inl ProposalNotFound
      else if canceled p then Inl ProposalCanceled
      else if \<not> startBlock p \<le> block_number e then Inl VotingNotStarted
      else if \<not> block_number e \<le> endBlock p then Inl VotingClosed
      else if hasVoted s proposalId (msg_sender e) then Inl AlreadyVoted
      else case getPastVotes e tok (msg_sender e) (snapshotBlock p) of
        Inl err \<Rightarrow> Inl err
      | Inr weight \<Rightarrow>
          if \<not> 0 < weight then Inl NoVotingPower
          else
            (let s1 = s\<lparr>hasVoted := (hasVoted s)(proposalId :=
                         (hasVoted s proposalId)(msg_sender e := True))\<rparr> in
             if support then
               (case checked_add (forVotes p) weight of
                  Inl err \<Rightarrow> Inl err
                | Inr v \<Rightarrow> Inr (s1\<lparr>proposals := (proposals s1)(proposalId := p\<lparr>forVotes := v\<rparr>)\<rparr>))
             else
               (case checked_add (againstVotes p) weight of
                  Inl err \<Rightarrow> Inl err
                | Inr v \<Rightarrow> Inr (s1\<lparr>proposals := (proposals s1)(proposalId := p\<lparr>againstVotes := v\<rparr>)\<rparr>))))"

definition vote :: "env \<Rightarrow> VotingToken \<Rightarrow> uint256 \<Rightarrow> bool \<Rightarrow> DAOVoting \<Rightarrow> error + DAOVoting" where
  "vote e tok proposalId support = nonReentrant (vote_body e tok proposalId support)"

text \<open>
  \<open>state\<close> is a view; the product \<open>totalSupplyAtSnapshot * quorumNumerator\<close> is a checked
  \<open>uint256\<close> product and the historical lookup can fail, so it has a failure branch.
\<close>

definition state :: "env \<Rightarrow> VotingToken \<Rightarrow> DAOVoting \<Rightarrow> uint256 \<Rightarrow> error + ProposalState" where
  "state e tok s proposalId =
     (let p = proposals s proposalId in
      if id_p p = 0 then Inr Unknown
      else if canceled p then Inr Canceled
      else if executed p then Inr Executed
      else if block_number e \<le> endBlock p then Inr Active
      else case getPastTotalSupply e tok (snapshotBlock p) of
        Inl err \<Rightarrow> Inl err
      | Inr totalSupplyAtSnapshot \<Rightarrow>
          (case checked_mul totalSupplyAtSnapshot (ucast (quorumNumerator s)) of
             Inl err \<Rightarrow> Inl err
           | Inr scaled \<Rightarrow>
               (let requiredQuorum = scaled div ucast QUORUM_DENOMINATOR in
                if requiredQuorum \<le> forVotes p \<and> againstVotes p < forVotes p
                then Inr Succeeded else Inr Defeated)))"

text \<open>
  \<open>executeProposal\<close>: four checks, then the internal call of \<open>state\<close>, then the flag.
\<close>

definition executeProposal_body :: "env \<Rightarrow> VotingToken \<Rightarrow> uint256 \<Rightarrow> DAOVoting \<Rightarrow> error + DAOVoting" where
  "executeProposal_body e tok proposalId s =
     (let p = proposals s proposalId in
      if id_p p = 0 then Inl ProposalNotFound
      else if canceled p then Inl ProposalCanceled
      else if executed p then Inl AlreadyExecuted
      else if \<not> endBlock p < block_number e then Inl VotingNotEnded
      else case state e tok s proposalId of
        Inl err \<Rightarrow> Inl err
      | Inr st \<Rightarrow>
          if st \<noteq> Succeeded then Inl ProposalNotSuccessful
          else Inr (s\<lparr>proposals := (proposals s)(proposalId := p\<lparr>executed := True\<rparr>)\<rparr>))"

definition executeProposal :: "env \<Rightarrow> VotingToken \<Rightarrow> uint256 \<Rightarrow> DAOVoting \<Rightarrow> error + DAOVoting" where
  "executeProposal e tok proposalId = nonReentrant (executeProposal_body e tok proposalId)"

text \<open>\<open>cancelProposal\<close> is the owner's: three checks, then the flag.\<close>

definition cancelProposal_body :: "uint256 \<Rightarrow> DAOVoting \<Rightarrow> error + DAOVoting" where
  "cancelProposal_body proposalId s =
     (let p = proposals s proposalId in
      if id_p p = 0 then Inl ProposalNotFound
      else if canceled p then Inl AlreadyCanceled
      else if executed p then Inl AlreadyExecuted
      else Inr (s\<lparr>proposals := (proposals s)(proposalId := p\<lparr>canceled := True\<rparr>)\<rparr>))"

definition cancelProposal :: "env \<Rightarrow> uint256 \<Rightarrow> DAOVoting \<Rightarrow> error + DAOVoting" where
  "cancelProposal e proposalId = onlyOwner e (cancelProposal_body proposalId)"

text \<open>The two setters are the owner's; each checks its argument and writes one field.\<close>

definition setQuorumNumerator :: "env \<Rightarrow> uint16 \<Rightarrow> DAOVoting \<Rightarrow> error + DAOVoting" where
  "setQuorumNumerator e newNumerator =
     onlyOwner e (\<lambda>s.
       if \<not> (0 < newNumerator \<and> newNumerator \<le> QUORUM_DENOMINATOR) then Inl InvalidQuorum
       else Inr (s\<lparr>quorumNumerator := newNumerator\<rparr>))"

definition setVotingPeriodBlocks :: "env \<Rightarrow> uint256 \<Rightarrow> DAOVoting \<Rightarrow> error + DAOVoting" where
  "setVotingPeriodBlocks e newVotingPeriodBlocks =
     onlyOwner e (\<lambda>s.
       if \<not> 0 < newVotingPeriodBlocks then Inl ZeroVotingPeriod
       else Inr (s\<lparr>votingPeriodBlocks := newVotingPeriodBlocks\<rparr>))"

section \<open>Transactions and executions\<close>

text \<open>
  The two contracts side by side. A transaction is a caller, a block number and one
  call of an entry point. A call that fails reverts: the world stays as it was. Events
  are not modelled.
\<close>

record world =
  token :: VotingToken
  dao :: DAOVoting

datatype call =
    Transfer address uint256
  | Mint address uint256
  | Burn address uint256
  | BurnOwn uint256
  | Delegate address
  | CreateProposal string
  | Vote uint256 bool
  | ExecuteProposal uint256
  | CancelProposal uint256
  | SetQuorumNumerator uint16
  | SetVotingPeriodBlocks uint256

datatype ret = Done | Created uint256

type_synonym tx = "env \<times> call"

definition on_token :: "world \<Rightarrow> error + VotingToken \<Rightarrow> error + (ret \<times> world)" where
  "on_token w r = (case r of Inl err \<Rightarrow> Inl err | Inr t \<Rightarrow> Inr (Done, w\<lparr>token := t\<rparr>))"

definition on_dao :: "world \<Rightarrow> error + DAOVoting \<Rightarrow> error + (ret \<times> world)" where
  "on_dao w r = (case r of Inl err \<Rightarrow> Inl err | Inr d \<Rightarrow> Inr (Done, w\<lparr>dao := d\<rparr>))"

fun perform :: "world \<Rightarrow> env \<Rightarrow> call \<Rightarrow> error + (ret \<times> world)" where
  "perform w e (Transfer to amount) = on_token w (transfer e to amount (token w))"
| "perform w e (Mint to amount) = on_token w (mint e to amount (token w))"
| "perform w e (Burn from amount) = on_token w (burn e from amount (token w))"
| "perform w e (BurnOwn amount) = on_token w (burn_own e amount (token w))"
| "perform w e (Delegate newDelegate) = on_token w (delegate e newDelegate (token w))"
| "perform w e (CreateProposal descr) =
     (case createProposal e descr (dao w) of
        Inl err \<Rightarrow> Inl err
      | Inr (pid, d) \<Rightarrow> Inr (Created pid, w\<lparr>dao := d\<rparr>))"
| "perform w e (Vote proposalId support) = on_dao w (vote e (token w) proposalId support (dao w))"
| "perform w e (ExecuteProposal proposalId) = on_dao w (executeProposal e (token w) proposalId (dao w))"
| "perform w e (CancelProposal proposalId) = on_dao w (cancelProposal e proposalId (dao w))"
| "perform w e (SetQuorumNumerator q) = on_dao w (setQuorumNumerator e q (dao w))"
| "perform w e (SetVotingPeriodBlocks n) = on_dao w (setVotingPeriodBlocks e n (dao w))"

definition after :: "world \<Rightarrow> tx \<Rightarrow> world" where
  "after w t = (case perform w (fst t) (snd t) of Inl err \<Rightarrow> w | Inr (r, w') \<Rightarrow> w')"

definition outcome :: "world \<Rightarrow> tx \<Rightarrow> error + ret" where
  "outcome w t = (case perform w (fst t) (snd t) of Inl err \<Rightarrow> Inl err | Inr (r, w') \<Rightarrow> Inr r)"

fun run :: "world \<Rightarrow> tx list \<Rightarrow> world" where
  "run w [] = w"
| "run w (t # ts) = run (after w t) ts"

text \<open>The outcome of every transaction of an execution, in order.\<close>

fun outcomes :: "world \<Rightarrow> tx list \<Rightarrow> (error + ret) list" where
  "outcomes w [] = []"
| "outcomes w (t # ts) = outcome w t # outcomes (after w t) ts"

text \<open>
  The clock is the environment's: block numbers never decrease along an execution that
  starts at block \<open>b\<close>.
\<close>

fun chronological :: "uint256 \<Rightarrow> tx list \<Rightarrow> bool" where
  "chronological b [] = True"
| "chronological b (t # ts) = (b \<le> block_number (fst t) \<and> chronological (block_number (fst t)) ts)"

text \<open>
  Deployment: the token's constructor, then the contract's constructor on the token's
  address, both by the deployer in one block.
\<close>

definition deploy :: "env \<Rightarrow> uint256 \<Rightarrow> address \<Rightarrow> uint16 \<Rightarrow> uint256 \<Rightarrow> error + world" where
  "deploy e initialSupply token_addr quorum period =
     (case token_constructor e initialSupply of
        Inl err \<Rightarrow> Inl err
      | Inr t \<Rightarrow>
          (case constructor e token_addr quorum period of
             Inl err \<Rightarrow> Inl err
           | Inr d \<Rightarrow> Inr \<lparr>token = t, dao = d\<rparr>))"

fun clock :: "uint256 \<Rightarrow> tx list \<Rightarrow> uint256" where
  "clock b [] = b"
| "clock b (t # ts) = clock (block_number (fst t)) ts"

section \<open>Invariants of the reachable worlds\<close>

text \<open>
  A checkpoint series at block \<open>b\<close>: strictly increasing sequence numbers, none after
  \<open>b\<close>.
\<close>

definition series_ok :: "uint256 \<Rightarrow> checkpoint list \<Rightarrow> bool" where
  "series_ok b cps = (increasing cps \<and> (\<forall>c \<in> set cps. fst c \<le> b))"

definition token_inv :: "uint256 \<Rightarrow> VotingToken \<Rightarrow> bool" where
  "token_inv b tok =
     ((\<forall>a. series_ok b (delegateCheckpoints tok a)) \<and> series_ok b (totalCheckpoints tok))"

text \<open>
  The proposal table at block \<open>b\<close>: a slot is either untouched or holds the proposal
  of that identity, below the counter, with the window that \<open>createProposal\<close> gave it;
  an executed proposal's window has closed.
\<close>

definition proposal_ok :: "uint256 \<Rightarrow> uint256 \<Rightarrow> uint256 \<Rightarrow> Proposal \<Rightarrow> bool" where
  "proposal_ok b next_id i p =
     (if id_p p = 0 then p = zeroProposal
      else id_p p = i \<and> i < next_id \<and> snapshotBlock p = startBlock p
           \<and> startBlock p \<le> endBlock p \<and> startBlock p \<le> b
           \<and> (executed p \<longrightarrow> endBlock p < b))"

definition dao_inv :: "uint256 \<Rightarrow> DAOVoting \<Rightarrow> bool" where
  "dao_inv b s =
     (\<not> entered s \<and> 0 < nextProposalId s
      \<and> (\<forall>i. proposal_ok b (nextProposalId s) i (proposals s i)))"

text \<open>
  Every checkpoint with sequence number \<open>\<le> S\<close> is the same in both ledgers, in every
  delegate's series and in the total-supply series.
\<close>

definition same_past :: "uint256 \<Rightarrow> VotingToken \<Rightarrow> VotingToken \<Rightarrow> bool" where
  "same_past S tok tok' =
     ((\<forall>a. not_after S (delegateCheckpoints tok' a) = not_after S (delegateCheckpoints tok a))
      \<and> not_after S (totalCheckpoints tok') = not_after S (totalCheckpoints tok))"

definition world_inv :: "uint256 \<Rightarrow> world \<Rightarrow> bool" where
  "world_inv b w = (token_inv b (token w) \<and> dao_inv b (dao w))"

section \<open>The specification's words\<close>

text \<open>
  The quorum of the specification, on unbounded numbers:
  \<open>floor(totalSupplyAtSnapshot * quorumNumerator / 100)\<close>.
\<close>

definition requiredQuorum_spec :: "nat \<Rightarrow> nat \<Rightarrow> nat" where
  "requiredQuorum_spec supply numerator = (supply * numerator) div 100"

text \<open>
  The classification of the specification for a proposal whose window has closed and
  which is neither canceled nor executed.
\<close>

definition tally_spec :: "nat \<Rightarrow> nat \<Rightarrow> nat \<Rightarrow> nat \<Rightarrow> ProposalState" where
  "tally_spec supply numerator for against =
     (if requiredQuorum_spec supply numerator \<le> for \<and> against < for then Succeeded else Defeated)"

text \<open>The calls of the state machine that act on one proposal.\<close>

fun targets :: "uint256 \<Rightarrow> call \<Rightarrow> bool" where
  "targets i (Vote j support) = (j = i)"
| "targets i (ExecuteProposal j) = (j = i)"
| "targets i (CancelProposal j) = (j = i)"
| "targets i c = False"

text \<open>The identities that the successful \<open>createProposal\<close> calls of an execution returned.\<close>

fun created_ids :: "(error + ret) list \<Rightarrow> uint256 list" where
  "created_ids [] = []"
| "created_ids (Inr (Created pid) # rs) = pid # created_ids rs"
| "created_ids (r # rs) = created_ids rs"

section \<open>The specification's scenario\<close>

text \<open>
  Total supply 1,000,000 minted to the deployer (address 1) at block 1; quorum 20 percent,
  voting period 5 blocks. The holders 2, 3 and 4 receive 300,000, 50,000 and 300,000 and
  delegate to themselves; holder 2 creates proposal 1 at block 10, whose window closes
  at block 15.
\<close>

definition from_at :: "address \<Rightarrow> uint256 \<Rightarrow> env" where
  "from_at who b = \<lparr>msg_sender = who, block_number = b\<rparr>"

definition genesis :: world where
  "genesis =
     \<lparr>token = \<lparr>balanceOf = (\<lambda>_. 0)(1 := 1000000), totalSupply = 1000000,
               delegates = (\<lambda>_. 0), delegateCheckpoints = (\<lambda>_. []),
               totalCheckpoints = [(1, 1000000)], tokenOwner = 1\<rparr>,
      dao = \<lparr>governanceToken = 100, quorumNumerator = 20, votingPeriodBlocks = 5,
             nextProposalId = 1, proposals = (\<lambda>_. zeroProposal),
             hasVoted = (\<lambda>_ _. False), owner = 1, entered = False\<rparr>\<rparr>"

definition preparation :: "tx list" where
  "preparation =
     [(from_at 1 2, Transfer 2 300000), (from_at 1 2, Transfer 3 50000), (from_at 1 2, Transfer 4 300000),
      (from_at 2 3, Delegate 2), (from_at 3 3, Delegate 3), (from_at 4 3, Delegate 4),
      (from_at 2 10, CreateProposal ''upgrade'')]"

text \<open>Holder 2 votes for and holder 3 against, inside the window.\<close>

definition ballots :: "tx list" where
  "ballots = [(from_at 2 11, Vote 1 True), (from_at 3 12, Vote 1 False)]"

definition voted :: world where
  "voted = run genesis (preparation @ ballots)"

text \<open>The same proposal with the vote of holder 3 alone, 50,000 for: below the quorum.\<close>

definition minority :: "tx list" where
  "minority = [(from_at 3 11, Vote 1 True)]"

definition outvoted :: world where
  "outvoted = run genesis (preparation @ minority)"

text \<open>Token movements after block 10, the snapshot of proposal 1.\<close>

definition movements :: "tx list" where
  "movements =
     [(from_at 2 11, Transfer 3 300000), (from_at 3 12, Delegate 4), (from_at 1 13, Mint 3 500)]"

text \<open>
  A holder without delegation proposes at block 10 and delegates to itself in the same
  block.
\<close>

definition late_delegation :: "tx list" where
  "late_delegation =
     [(from_at 1 2, Transfer 2 300000), (from_at 2 10, CreateProposal ''upgrade''),
      (from_at 2 10, Delegate 2)]"

text \<open>After the window: anyone executes proposal 1; later calls follow.\<close>

definition execution :: "tx list" where
  "execution = [(from_at 9 16, ExecuteProposal 1)]"

definition aftermath :: "tx list" where
  "aftermath = [(from_at 1 17, SetQuorumNumerator 90), (from_at 4 17, Delegate 2)]"

text \<open>Two proposals, and a cancellation between them.\<close>

definition proposing :: "tx list" where
  "proposing = [(from_at 2 10, CreateProposal ''upgrade''), (from_at 1 11, CancelProposal 1),
                (from_at 7 11, CreateProposal ''again'')]"

text \<open>The owner sets the voting period to the largest \<open>uint256\<close>; holder 2 then proposes.\<close>

definition unbounded_period :: "tx list" where
  "unbounded_period =
     [(from_at 1 2, SetVotingPeriodBlocks
         115792089237316195423570985008687907853269984665640564039457584007913129639935),
      (from_at 2 10, CreateProposal ''upgrade'')]"

section \<open>Arithmetic of the quorum\<close>

lemma uint_ucast_numerator: "uint (ucast (q :: uint16) :: uint256) = uint q"
  by (simp add: uint_up_ucast is_up)

lemma uint_mult_fits:
  "uint (a :: uint256) * uint b < 2 ^ 256 \<Longrightarrow> uint (a * b) = uint a * uint b"
  by (simp add: uint_word_ariths(3) take_bit_int_eq_self)

lemma unat_required_quorum:
  assumes "uint (ts :: uint256) * uint (q :: uint16) < 2 ^ 256"
  shows "unat ((ts * ucast q) div ucast QUORUM_DENOMINATOR) = requiredQuorum_spec (unat ts) (unat q)"
proof -
  have "uint (ts * (ucast q :: uint256)) = uint ts * uint q"
    using assms by (simp add: uint_mult_fits uint_ucast_numerator)
  then have "unat (ts * (ucast q :: uint256)) = unat ts * unat q"
    by (metis nat_int of_nat_mult uint_nat)
  then show ?thesis
    by (simp add: requiredQuorum_spec_def QUORUM_DENOMINATOR_def unat_div)
qed

text \<open>The checked product of \<open>state\<close> fits whenever the supply is below \<open>2 ^ 240\<close>.\<close>

lemma product_fits:
  assumes "ts < 2 ^ 240"
  shows "uint (ts :: uint256) * uint (q :: uint16) < 2 ^ 256"
proof -
  have a: "uint ts < 2 ^ 240" using assms by (simp add: word_less_def)
  have b: "uint q < 2 ^ 16" using uint_lt2p [of q] by simp
  have "uint ts * uint q \<le> uint ts * 2 ^ 16"
    using b by (intro mult_left_mono) simp_all
  also have "\<dots> < 2 ^ 240 * 2 ^ 16" using a by simp
  finally show ?thesis by simp
qed

lemma requiredQuorum_spec_mono:
  "q \<le> q' \<Longrightarrow> requiredQuorum_spec supply q \<le> requiredQuorum_spec supply q'"
  by (simp add: requiredQuorum_spec_def div_le_mono)

section \<open>The scenario, evaluated\<close>

lemma deploy_genesis: "deploy (from_at 1 1) 1000000 100 20 5 = Inr genesis"
  by (simp add: deploy_def token_constructor_def constructor_def mint_internal_def emptyToken_def
      checked_add_def moveVotingPower_def QUORUM_DENOMINATOR_def genesis_def from_at_def push_def)

lemma scenario_outcomes:
  "outcomes genesis (preparation @ ballots) =
     [Inr Done, Inr Done, Inr Done, Inr Done, Inr Done, Inr Done, Inr (Created 1), Inr Done, Inr Done]"
  by code_simp

lemma voted_latch: "\<not> entered (dao voted)"
  by code_simp

lemma voted_succeeded:
  "id_p (proposals (dao voted) 1) \<noteq> 0 \<and> \<not> canceled (proposals (dao voted) 1)
   \<and> \<not> executed (proposals (dao voted) 1)
   \<and> endBlock (proposals (dao voted) 1) < block_number (from_at 9 16)
   \<and> state (from_at 9 16) (token voted) (dao voted) 1 = Inr Succeeded"
  by code_simp

section \<open>The view \<open>state\<close>\<close>

lemma state_entered [simp]: "state e tok (s\<lparr>entered := b\<rparr>) i = state e tok s i"
  by (simp add: state_def Let_def cong: sum.case_cong if_cong)

text \<open>
  C6, quorum monotonicity. With the tallies and the snapshot supply fixed, a proposal
  that \<open>state\<close> computes as \<open>Defeated\<close> under numerator \<open>q\<close> is never computed as
  \<open>Succeeded\<close> under a numerator \<open>q' \<ge> q\<close>; it is computed as \<open>Defeated\<close> whenever the
  checked product of the snapshot supply and \<open>q'\<close> fits in 256 bits (otherwise the view
  reverts).
\<close>

theorem quorum_monotonicity:
  assumes "state e tok (s\<lparr>quorumNumerator := q\<rparr>) i = Inr Defeated" and "q \<le> q'"
  shows "state e tok (s\<lparr>quorumNumerator := q'\<rparr>) i \<noteq> Inr Succeeded
    \<and> (uint (upperLookup (totalCheckpoints tok) (snapshotBlock (proposals s i))) * uint q' < 2 ^ 256
         \<longrightarrow> state e tok (s\<lparr>quorumNumerator := q'\<rparr>) i = Inr Defeated)"
proof -
  let ?p = "proposals s i"
  let ?ts = "upperLookup (totalCheckpoints tok) (snapshotBlock ?p)"
  from assms(1) have closed: "id_p ?p \<noteq> 0" "\<not> canceled ?p" "\<not> executed ?p"
    "\<not> block_number e \<le> endBlock ?p" "\<not> block_number e \<le> snapshotBlock ?p"
    by (auto simp: state_def Let_def getPastTotalSupply_def split: if_splits)
  from assms(1) closed have fits: "uint ?ts * uint q < 2 ^ 256"
    by (auto simp: state_def Let_def getPastTotalSupply_def checked_mul_def uint_ucast_numerator
        split: if_splits)
  from assms(1) closed fits
  have lost: "\<not> (requiredQuorum_spec (unat ?ts) (unat q) \<le> unat (forVotes ?p)
              \<and> againstVotes ?p < forVotes ?p)"
    using unat_required_quorum [OF fits]
    by (auto simp: state_def Let_def getPastTotalSupply_def checked_mul_def uint_ucast_numerator
        word_le_nat_alt split: if_splits)
  have mono: "requiredQuorum_spec (unat ?ts) (unat q) \<le> requiredQuorum_spec (unat ?ts) (unat q')"
    using assms(2) by (simp add: requiredQuorum_spec_mono word_le_nat_alt)
  show ?thesis
  proof (cases "uint ?ts * uint q' < 2 ^ 256")
    case True
    have "state e tok (s\<lparr>quorumNumerator := q'\<rparr>) i = Inr Defeated"
      using closed True lost mono unat_required_quorum [OF True]
      by (auto simp: state_def Let_def getPastTotalSupply_def checked_mul_def uint_ucast_numerator
          word_le_nat_alt)
    then show ?thesis by simp
  next
    case False
    then have "state e tok (s\<lparr>quorumNumerator := q'\<rparr>) i = Inl ArithmeticPanic"
      using closed
      by (simp add: state_def Let_def getPastTotalSupply_def checked_mul_def uint_ucast_numerator)
    with False show ?thesis by simp
  qed
qed

theorem quorum_monotonicity_witness:
  "state (from_at 9 16) (token voted) ((dao voted)\<lparr>quorumNumerator := 40\<rparr>) 1 = Inr Defeated
   \<and> (40 :: uint16) \<le> 90
   \<and> state (from_at 9 16) (token voted) ((dao voted)\<lparr>quorumNumerator := 90\<rparr>) 1 = Inr Defeated"
proof -
  have a: "state (from_at 9 16) (token voted) ((dao voted)\<lparr>quorumNumerator := 40\<rparr>) 1 = Inr Defeated"
    by code_simp
  have b: "(40 :: uint16) \<le> 90" by simp
  have c: "uint (upperLookup (totalCheckpoints (token voted)) (snapshotBlock (proposals (dao voted) 1)))
             * uint (90 :: uint16) < 2 ^ 256"
    by code_simp
  show ?thesis using quorum_monotonicity [OF a b] a b c by simp
qed

section \<open>Execution of a proposal\<close>

lemma executeProposal_unfold:
  "\<not> entered s \<Longrightarrow> executeProposal e tok i s =
     (let p = proposals s i in
      if id_p p = 0 then Inl ProposalNotFound
      else if canceled p then Inl ProposalCanceled
      else if executed p then Inl AlreadyExecuted
      else if \<not> endBlock p < block_number e then Inl VotingNotEnded
      else case state e tok s i of
        Inl err \<Rightarrow> Inl err
      | Inr st \<Rightarrow>
          if st \<noteq> Succeeded then Inl ProposalNotSuccessful
          else Inr (s\<lparr>proposals := (proposals s)(i := p\<lparr>executed := True\<rparr>)\<rparr>))"
  by (simp add: executeProposal_def nonReentrant_def executeProposal_body_def Let_def split: sum.splits)

text \<open>
  C9. Between calls the reentrancy latch is clear. Then \<open>executeProposal\<close> fails with
  \<open>ProposalNotFound\<close>, \<open>ProposalCanceled\<close>, \<open>AlreadyExecuted\<close>, \<open>VotingNotEnded\<close> (current
  block \<open>\<le>\<close> end) and \<open>ProposalNotSuccessful\<close> (the computed state is not \<open>Succeeded\<close>),
  in this order; it succeeds exactly when the proposal exists, is neither canceled nor
  executed, the window has closed and the computed state is \<open>Succeeded\<close>; and a
  successful call changes the storage only by setting \<open>executed\<close> of that proposal.
\<close>

theorem executeProposal_outcome:
  assumes latch: "\<not> entered s"
  shows "(id_p (proposals s i) = 0 \<longrightarrow> executeProposal e tok i s = Inl ProposalNotFound)
    \<and> (id_p (proposals s i) \<noteq> 0 \<and> canceled (proposals s i) \<longrightarrow>
         executeProposal e tok i s = Inl ProposalCanceled)
    \<and> (id_p (proposals s i) \<noteq> 0 \<and> \<not> canceled (proposals s i) \<and> executed (proposals s i) \<longrightarrow>
         executeProposal e tok i s = Inl AlreadyExecuted)
    \<and> (id_p (proposals s i) \<noteq> 0 \<and> \<not> canceled (proposals s i) \<and> \<not> executed (proposals s i)
         \<and> block_number e \<le> endBlock (proposals s i) \<longrightarrow>
         executeProposal e tok i s = Inl VotingNotEnded)
    \<and> (id_p (proposals s i) \<noteq> 0 \<and> \<not> canceled (proposals s i) \<and> \<not> executed (proposals s i)
         \<and> endBlock (proposals s i) < block_number e
         \<and> (\<exists>st. state e tok s i = Inr st \<and> st \<noteq> Succeeded) \<longrightarrow>
         executeProposal e tok i s = Inl ProposalNotSuccessful)
    \<and> ((\<exists>s'. executeProposal e tok i s = Inr s') \<longleftrightarrow>
         id_p (proposals s i) \<noteq> 0 \<and> \<not> canceled (proposals s i) \<and> \<not> executed (proposals s i)
         \<and> endBlock (proposals s i) < block_number e \<and> state e tok s i = Inr Succeeded)
    \<and> (\<forall>s'. executeProposal e tok i s = Inr s' \<longrightarrow>
         s' = s\<lparr>proposals := (proposals s)(i := (proposals s i)\<lparr>executed := True\<rparr>)\<rparr>)"
  using latch
  by (auto simp add: executeProposal_unfold Let_def split: sum.splits if_splits)

theorem executeProposal_outcome_witness:
  "\<not> entered (dao voted)
   \<and> (\<exists>s'. executeProposal (from_at 9 16) (token voted) 1 (dao voted) = Inr s')
   \<and> executeProposal (from_at 9 15) (token voted) 1 (dao voted) = Inl VotingNotEnded
   \<and> executeProposal (from_at 9 16) (token voted) 7 (dao voted) = Inl ProposalNotFound"
proof -
  have absent: "id_p (proposals (dao voted) 7) = 0" by code_simp
  have early: "id_p (proposals (dao voted) 1) \<noteq> 0 \<and> \<not> canceled (proposals (dao voted) 1)
     \<and> \<not> executed (proposals (dao voted) 1)
     \<and> block_number (from_at 9 15) \<le> endBlock (proposals (dao voted) 1)"
    by code_simp
  show ?thesis
    using executeProposal_outcome [OF voted_latch, of 1 "from_at 9 16" "token voted"]
      executeProposal_outcome [OF voted_latch, of 1 "from_at 9 15" "token voted"]
      executeProposal_outcome [OF voted_latch, of 7 "from_at 9 16" "token voted"]
      voted_latch voted_succeeded early absent
    by blast
qed

section \<open>The binary search finds the latest checkpoint\<close>

lemma increasing_nth_mono:
  "increasing cps \<Longrightarrow> j \<le> k \<Longrightarrow> k < length cps \<Longrightarrow> fst (cps ! j) \<le> fst (cps ! k)"
  unfolding increasing_def
  by (metis (no_types, lifting) le_neq_implies_less length_map less_imp_le nth_map order_le_less_trans order_refl sorted_wrt_nth_less)

lemma upperBinaryLookup_bounds:
  "increasing cps \<Longrightarrow> low \<le> high \<Longrightarrow> high \<le> length cps \<Longrightarrow>
   (\<forall>j<low. fst (cps ! j) \<le> key) \<Longrightarrow>
   (\<forall>j. high \<le> j \<and> j < length cps \<longrightarrow> key < fst (cps ! j)) \<Longrightarrow>
   upperBinaryLookup cps key low high \<le> length cps
   \<and> (\<forall>j<upperBinaryLookup cps key low high. fst (cps ! j) \<le> key)
   \<and> (\<forall>j. upperBinaryLookup cps key low high \<le> j \<and> j < length cps \<longrightarrow> key < fst (cps ! j))"
proof (induction cps key low high rule: upperBinaryLookup.induct)
  case (1 cps key low high)
  show ?case
  proof (cases "low < high")
    case False
    then have "upperBinaryLookup cps key low high = high"
      by (simp add: upperBinaryLookup.simps [of cps key low high])
    with "1.prems" False show ?thesis by simp
  next
    case True
    define mid where "mid = (low + high) div 2"
    have mid: "low \<le> mid" "mid < high" using True by (simp_all add: mid_def)
    show ?thesis
    proof (cases "key < fst (cps ! mid)")
      case above: True
      have up: "\<forall>j. mid \<le> j \<and> j < length cps \<longrightarrow> key < fst (cps ! j)"
        using above increasing_nth_mono [OF "1.prems"(1)] by (meson order_less_le_trans)
      have eq: "upperBinaryLookup cps key low high = upperBinaryLookup cps key low mid"
        using True above by (simp add: upperBinaryLookup.simps [of cps key low high] mid_def Let_def)
      have "mid \<le> length cps" using mid "1.prems" by simp
      from "1.IH"(1) [OF True mid_def above "1.prems"(1) mid(1) this "1.prems"(4) up]
      show ?thesis by (simp add: eq)
    next
      case below: False
      have mid_len: "mid < length cps" using mid "1.prems" by simp
      have low': "\<forall>j<mid + 1. fst (cps ! j) \<le> key"
      proof (intro allI impI)
        fix j assume "j < mid + 1"
        then have "j \<le> mid" by simp
        from increasing_nth_mono [OF "1.prems"(1) this mid_len] below
        show "fst (cps ! j) \<le> key" by simp
      qed
      have eq: "upperBinaryLookup cps key low high = upperBinaryLookup cps key (mid + 1) high"
        using True below by (simp add: upperBinaryLookup.simps [of cps key low high] mid_def Let_def)
      have "mid + 1 \<le> high" using mid by simp
      from "1.IH"(2) [OF True mid_def below "1.prems"(1) this "1.prems"(3) low' "1.prems"(5)]
      show ?thesis by (simp add: eq)
    qed
  qed
qed

lemma filter_prefix:
  assumes "r \<le> length xs" "\<forall>j<r. P (xs ! j)" "\<forall>j. r \<le> j \<and> j < length xs \<longrightarrow> \<not> P (xs ! j)"
  shows "filter P xs = take r xs"
proof -
  have a: "filter P (take r xs) = take r xs"
    using assms by (auto simp: filter_id_conv in_set_conv_nth)
  have "\<forall>x \<in> set (drop r xs). \<not> P x"
  proof
    fix x assume "x \<in> set (drop r xs)"
    then obtain k where "k < length xs - r" "x = xs ! (r + k)"
      by (auto simp: in_set_conv_nth)
    then show "\<not> P x" using assms(3) by simp
  qed
  then have b: "filter P (drop r xs) = []" by (simp add: filter_empty_conv)
  have "filter P xs = filter P (take r xs @ drop r xs)" by simp
  also have "\<dots> = take r xs" using a b by (simp del: append_take_drop_id)
  finally show ?thesis .
qed

lemma upperLookup_latest_at:
  assumes "increasing cps"
  shows "upperLookup cps key = latest_at cps key"
proof -
  define r where "r = upperBinaryLookup cps key 0 (length cps)"
  have "upperBinaryLookup cps key 0 (length cps) \<le> length cps
    \<and> (\<forall>j<upperBinaryLookup cps key 0 (length cps). fst (cps ! j) \<le> key)
    \<and> (\<forall>j. upperBinaryLookup cps key 0 (length cps) \<le> j \<and> j < length cps \<longrightarrow> key < fst (cps ! j))"
    by (rule upperBinaryLookup_bounds [OF assms]) auto
  then have b: "r \<le> length cps" "\<forall>j<r. fst (cps ! j) \<le> key"
    "\<forall>j. r \<le> j \<and> j < length cps \<longrightarrow> key < fst (cps ! j)"
    by (simp_all add: r_def)
  have f: "not_after key cps = take r cps"
    unfolding not_after_def using b by (intro filter_prefix) (auto simp: not_le)
  show ?thesis
  proof (cases "r = 0")
    case True
    then show ?thesis by (simp add: upperLookup_def latest_at_def latest_def f r_def [symmetric])
  next
    case False
    then have ne: "take r cps \<noteq> []" using b(1) by auto
    have len: "length (take r cps) = r" using b(1) by simp
    have "last (take r cps) = take r cps ! (r - 1)"
      using last_conv_nth [OF ne] by (simp only: len)
    also have "\<dots> = cps ! (r - 1)" using False by (intro nth_take) simp
    finally have "last (take r cps) = cps ! (r - 1)" .
    then show ?thesis using False ne
      by (simp add: upperLookup_def latest_at_def latest_def f r_def [symmetric])
  qed
qed

section \<open>Writing a checkpoint\<close>

lemma series_ok_mono: "series_ok b cps \<Longrightarrow> b \<le> b' \<Longrightarrow> series_ok b' cps"
  by (auto simp: series_ok_def)

lemma map_fst_overwrite:
  "map fst (map (\<lambda>c. if fst c = key then (key, v) else c) cps) = map fst cps"
  by (induction cps) auto

lemma push_series_ok:
  assumes "series_ok b cps" "b \<le> k"
  shows "series_ok k (push cps k v)"
proof (cases "k \<in> fst ` set cps")
  case True
  then have eq: "push cps k v = map (\<lambda>c. if fst c = k then (k, v) else c) cps"
    by (simp add: push_def)
  have "map fst (push cps k v) = map fst cps"
    by (simp only: eq map_fst_overwrite)
  then have inc: "increasing (push cps k v)"
    using assms(1) by (simp only: increasing_def series_ok_def)
  have "\<forall>c \<in> set (push cps k v). fst c \<le> k"
    using assms by (auto simp: eq series_ok_def)
  with inc show ?thesis by (simp only: series_ok_def simp_thms)
next
  case False
  then have eq: "push cps k v = cps @ [(k, v)]" by (simp add: push_def)
  have "\<forall>c \<in> set cps. fst c < k"
  proof
    fix c assume c: "c \<in> set cps"
    then have "fst c \<le> k" using assms by (auto simp: series_ok_def)
    moreover have "fst c \<noteq> k" using False c by auto
    ultimately show "fst c < k" by simp
  qed
  then show ?thesis
    using assms(1) by (auto simp: eq series_ok_def increasing_def sorted_wrt_append)
qed

lemma not_after_overwrite:
  "S < k \<Longrightarrow> not_after S (map (\<lambda>c. if fst c = k then (k, v) else c) cps) = not_after S cps"
  by (induction cps) (auto simp: not_after_def)

lemma not_after_push: "S < k \<Longrightarrow> not_after S (push cps k v) = not_after S cps"
  by (auto simp: push_def not_after_overwrite) (simp add: not_after_def)

section \<open>The ledger's operations keep the series and the past\<close>

lemma same_past_refl [simp]: "same_past S tok tok"
  by (simp add: same_past_def)

lemma same_past_trans: "same_past S a b \<Longrightarrow> same_past S b c \<Longrightarrow> same_past S a c"
  by (simp add: same_past_def)

lemma token_inv_mono: "token_inv b tok \<Longrightarrow> b \<le> b' \<Longrightarrow> token_inv b' tok"
  by (auto simp: token_inv_def intro: series_ok_mono)

lemma write_delegate_inv:
  assumes "token_inv b tok" "b \<le> k"
  shows "token_inv k (tok\<lparr>delegateCheckpoints := (delegateCheckpoints tok)
           (who := push (delegateCheckpoints tok who) k v)\<rparr>)"
  using assms by (auto simp: token_inv_def intro: push_series_ok series_ok_mono)

lemma write_delegate_same:
  "S < k \<Longrightarrow> same_past S tok (tok\<lparr>delegateCheckpoints := (delegateCheckpoints tok)
           (who := push (delegateCheckpoints tok who) k v)\<rparr>)"
  by (simp add: same_past_def not_after_push)

lemma debitVotes_step:
  assumes "token_inv b tok" "b \<le> block_number e" "debitVotes e who amount tok = Inr tok'"
  shows "token_inv (block_number e) tok' \<and> (S < block_number e \<longrightarrow> same_past S tok tok')"
  using assms write_delegate_inv [OF assms(1,2)] write_delegate_same token_inv_mono [OF assms(1,2)]
  by (auto simp: debitVotes_def split: if_splits sum.splits)

lemma creditVotes_step:
  assumes "token_inv b tok" "b \<le> block_number e" "creditVotes e who amount tok = Inr tok'"
  shows "token_inv (block_number e) tok' \<and> (S < block_number e \<longrightarrow> same_past S tok tok')"
  using assms write_delegate_inv [OF assms(1,2)] write_delegate_same token_inv_mono [OF assms(1,2)]
  by (auto simp: creditVotes_def split: if_splits sum.splits)

lemma moveVotingPower_step:
  assumes "token_inv b tok" "b \<le> block_number e" "moveVotingPower e src dst amount tok = Inr tok'"
  shows "token_inv (block_number e) tok' \<and> (S < block_number e \<longrightarrow> same_past S tok tok')"
proof (cases "src = dst \<or> amount = 0")
  case True
  then have "tok' = tok" using assms(3) by (simp add: moveVotingPower_def)
  then show ?thesis using token_inv_mono [OF assms(1,2)] by simp
next
  case False
  then obtain tok1 where d: "debitVotes e src amount tok = Inr tok1"
    and c: "creditVotes e dst amount tok1 = Inr tok'"
    using assms(3) by (auto simp: moveVotingPower_def split: sum.splits)
  from debitVotes_step [OF assms(1,2) d, of S]
  have 1: "token_inv (block_number e) tok1" "S < block_number e \<longrightarrow> same_past S tok tok1" by simp_all
  from creditVotes_step [OF 1(1) order_refl c, of S]
  have 2: "token_inv (block_number e) tok'" "S < block_number e \<longrightarrow> same_past S tok1 tok'" by simp_all
  show ?thesis using 1 2 same_past_trans by blast
qed

lemma token_inv_fields [simp]:
  "token_inv b (tok\<lparr>balanceOf := f\<rparr>) = token_inv b tok"
  "token_inv b (tok\<lparr>delegates := g\<rparr>) = token_inv b tok"
  "token_inv b (tok\<lparr>totalSupply := n\<rparr>) = token_inv b tok"
  by (simp_all add: token_inv_def)

lemma same_past_fields [simp]:
  "same_past S tok (tok'\<lparr>balanceOf := f\<rparr>) = same_past S tok tok'"
  "same_past S tok (tok'\<lparr>delegates := g\<rparr>) = same_past S tok tok'"
  "same_past S tok (tok'\<lparr>totalSupply := n\<rparr>) = same_past S tok tok'"
  "same_past S (tok\<lparr>balanceOf := f\<rparr>) tok' = same_past S tok tok'"
  "same_past S (tok\<lparr>delegates := g\<rparr>) tok' = same_past S tok tok'"
  "same_past S (tok\<lparr>totalSupply := n\<rparr>) tok' = same_past S tok tok'"
  by (simp_all add: same_past_def)

lemma write_total_inv:
  assumes "token_inv b tok" "b \<le> k"
  shows "token_inv k (tok\<lparr>totalCheckpoints := push (totalCheckpoints tok) k v\<rparr>)"
  using assms by (auto simp: token_inv_def intro: push_series_ok series_ok_mono)

lemma write_total_same:
  "S < k \<Longrightarrow> same_past S tok (tok\<lparr>totalCheckpoints := push (totalCheckpoints tok) k v\<rparr>)"
  by (simp add: same_past_def not_after_push)

lemma transfer_step:
  assumes "token_inv b tok" "b \<le> block_number e" "transfer e to amount tok = Inr tok'"
  shows "token_inv (block_number e) tok' \<and> (S < block_number e \<longrightarrow> same_past S tok tok')"
proof -
  from assms(3) obtain f where
    m: "moveVotingPower e (delegates tok (msg_sender e)) (delegates tok to) amount
          (tok\<lparr>balanceOf := f\<rparr>) = Inr tok'"
    by (auto simp: transfer_def Let_def split: if_splits sum.splits)
  have "token_inv b (tok\<lparr>balanceOf := f\<rparr>)" using assms(1) by simp
  from moveVotingPower_step [OF this assms(2) m, of S] show ?thesis by simp
qed

lemma mint_internal_step:
  assumes "token_inv b tok" "b \<le> block_number e" "mint_internal e to amount tok = Inr tok'"
  shows "token_inv (block_number e) tok' \<and> (S < block_number e \<longrightarrow> same_past S tok tok')"
proof -
  from assms(3) obtain f n where
    m: "moveVotingPower e 0 (delegates tok to) amount
          (tok\<lparr>balanceOf := f, totalSupply := n,
               totalCheckpoints := push (totalCheckpoints tok) (block_number e) n\<rparr>) = Inr tok'"
    by (auto simp: mint_internal_def Let_def split: if_splits sum.splits)
  let ?t1 = "tok\<lparr>totalCheckpoints := push (totalCheckpoints tok) (block_number e) n\<rparr>"
  let ?t2 = "tok\<lparr>balanceOf := f, totalSupply := n,
               totalCheckpoints := push (totalCheckpoints tok) (block_number e) n\<rparr>"
  have i: "token_inv (block_number e) ?t2"
    using write_total_inv [OF assms(1,2), of n] by (simp add: token_inv_def)
  have s: "S < block_number e \<longrightarrow> same_past S tok ?t2"
    using write_total_same [of S "block_number e" tok n] by (simp add: same_past_def)
  from moveVotingPower_step [OF i order_refl m, of S] s same_past_trans
  show ?thesis by blast
qed

lemma burn_internal_step:
  assumes "token_inv b tok" "b \<le> block_number e" "burn_internal e from amount tok = Inr tok'"
  shows "token_inv (block_number e) tok' \<and> (S < block_number e \<longrightarrow> same_past S tok tok')"
proof -
  from assms(3) obtain f n where
    m: "moveVotingPower e (delegates tok from) 0 amount
          (tok\<lparr>balanceOf := f, totalSupply := n,
               totalCheckpoints := push (totalCheckpoints tok) (block_number e) n\<rparr>) = Inr tok'"
    by (auto simp: burn_internal_def Let_def split: if_splits sum.splits)
  let ?t2 = "tok\<lparr>balanceOf := f, totalSupply := n,
               totalCheckpoints := push (totalCheckpoints tok) (block_number e) n\<rparr>"
  have i: "token_inv (block_number e) ?t2"
    using write_total_inv [OF assms(1,2), of n] by (simp add: token_inv_def)
  have s: "S < block_number e \<longrightarrow> same_past S tok ?t2"
    using write_total_same [of S "block_number e" tok n] by (simp add: same_past_def)
  from moveVotingPower_step [OF i order_refl m, of S] s same_past_trans
  show ?thesis by blast
qed

lemma delegate_step:
  assumes "token_inv b tok" "b \<le> block_number e" "delegate e newDelegate tok = Inr tok'"
  shows "token_inv (block_number e) tok' \<and> (S < block_number e \<longrightarrow> same_past S tok tok')"
proof -
  from assms(3) obtain g where
    m: "moveVotingPower e (delegates tok (msg_sender e)) newDelegate (balanceOf tok (msg_sender e))
          (tok\<lparr>delegates := g\<rparr>) = Inr tok'"
    by (auto simp: delegate_def Let_def)
  have "token_inv b (tok\<lparr>delegates := g\<rparr>)" using assms(1) by simp
  from moveVotingPower_step [OF this assms(2) m, of S] show ?thesis by simp
qed

lemma token_constructor_inv:
  assumes "token_constructor e initialSupply = Inr tok"
  shows "token_inv (block_number e) tok"
proof -
  have z: "token_inv (block_number e) (emptyToken (msg_sender e))"
    by (simp add: token_inv_def emptyToken_def series_ok_def increasing_def)
  show ?thesis
  proof (cases "0 < initialSupply")
    case True
    then have "mint_internal e (msg_sender e) initialSupply (emptyToken (msg_sender e)) = Inr tok"
      using assms by (simp add: token_constructor_def)
    from mint_internal_step [OF z order_refl this, of 0] show ?thesis by simp
  next
    case False
    then show ?thesis using assms z by (simp add: token_constructor_def)
  qed
qed

section \<open>The contract's operations keep the proposal table\<close>

lemma checked_add_Inr:
  assumes "checked_add a b = Inr c"
  shows "c = a + b" "uint c = uint a + uint b" "a \<le> c" "unat c = unat a + unat b"
proof -
  from assms have f: "uint a + uint b < 2 ^ 256" and c: "c = a + b"
    by (auto simp: checked_add_def split: if_splits)
  show "c = a + b" by (rule c)
  show u: "uint c = uint a + uint b"
    using f by (simp add: c uint_word_ariths(1) take_bit_int_eq_self)
  show "a \<le> c" using u by (simp add: word_le_def)
  show "unat c = unat a + unat b"
    using u by (metis nat_int of_nat_add uint_nat)
qed

lemma checked_add_one_less: "checked_add n 1 = Inr n' \<Longrightarrow> n < n'"
  using checked_add_Inr(2) [of n 1 n'] by (simp add: word_less_def)

lemma proposal_ok_mono:
  "proposal_ok b n i p \<Longrightarrow> b \<le> b' \<Longrightarrow> n \<le> n' \<Longrightarrow> proposal_ok b' n' i p"
  by (auto simp: proposal_ok_def split: if_splits)

lemma dao_inv_mono: "dao_inv b s \<Longrightarrow> b \<le> b' \<Longrightarrow> dao_inv b' s"
  by (auto simp: dao_inv_def intro: proposal_ok_mono)

lemma createProposal_Inr:
  "createProposal e descr s = Inr (pid, s') \<longleftrightarrow>
     (uint (block_number e) + uint (votingPeriodBlocks s) < 2 ^ 256
      \<and> uint (nextProposalId s) + 1 < 2 ^ 256
      \<and> pid = nextProposalId s
      \<and> s' = s\<lparr>nextProposalId := nextProposalId s + 1,
               proposals := (proposals s)(nextProposalId s :=
                 \<lparr>id_p = nextProposalId s, proposer = msg_sender e, description = descr,
                  snapshotBlock = block_number e, startBlock = block_number e,
                  endBlock = block_number e + votingPeriodBlocks s,
                  forVotes = 0, againstVotes = 0, canceled = False, executed = False\<rparr>)\<rparr>)"
  by (auto simp: createProposal_def checked_add_def Let_def split: sum.splits)

lemma createProposal_step:
  assumes "dao_inv b s" "b \<le> block_number e" "createProposal e descr s = Inr (pid, s')"
  shows "dao_inv (block_number e) s'"
proof -
  from assms(3) have f: "checked_add (block_number e) (votingPeriodBlocks s) = Inr (block_number e + votingPeriodBlocks s)"
    and g: "checked_add (nextProposalId s) 1 = Inr (nextProposalId s + 1)"
    and s': "s' = s\<lparr>nextProposalId := nextProposalId s + 1,
               proposals := (proposals s)(nextProposalId s :=
                 \<lparr>id_p = nextProposalId s, proposer = msg_sender e, description = descr,
                  snapshotBlock = block_number e, startBlock = block_number e,
                  endBlock = block_number e + votingPeriodBlocks s,
                  forVotes = 0, againstVotes = 0, canceled = False, executed = False\<rparr>)\<rparr>"
    by (simp_all add: createProposal_Inr checked_add_def)
  have lt: "nextProposalId s < nextProposalId s + 1" by (rule checked_add_one_less [OF g])
  have le: "block_number e \<le> block_number e + votingPeriodBlocks s" by (rule checked_add_Inr(3) [OF f])
  have pos: "0 < nextProposalId s" "\<not> entered s" using assms(1) by (simp_all add: dao_inv_def)
  have old: "\<And>i. proposal_ok (block_number e) (nextProposalId s + 1) i (proposals s i)"
    using assms(1,2) lt by (auto simp: dao_inv_def intro: proposal_ok_mono)
  show ?thesis
    unfolding dao_inv_def s'
    using pos lt le old
    by (auto simp: proposal_ok_def word_neq_0_conv [symmetric] dest: order_less_trans)
qed

lemma vote_unfold:
  "\<not> entered s \<Longrightarrow> vote e tok i support s =
     (let p = proposals s i in
      if id_p p = 0 then Inl ProposalNotFound
      else if canceled p then Inl ProposalCanceled
      else if \<not> startBlock p \<le> block_number e then Inl VotingNotStarted
      else if \<not> block_number e \<le> endBlock p then Inl VotingClosed
      else if hasVoted s i (msg_sender e) then Inl AlreadyVoted
      else case getPastVotes e tok (msg_sender e) (snapshotBlock p) of
        Inl err \<Rightarrow> Inl err
      | Inr weight \<Rightarrow>
          if \<not> 0 < weight then Inl NoVotingPower
          else if support then
               (case checked_add (forVotes p) weight of
                  Inl err \<Rightarrow> Inl err
                | Inr v \<Rightarrow> Inr (s\<lparr>proposals := (proposals s)(i := p\<lparr>forVotes := v\<rparr>),
                                hasVoted := (hasVoted s)(i := (hasVoted s i)(msg_sender e := True))\<rparr>))
             else
               (case checked_add (againstVotes p) weight of
                  Inl err \<Rightarrow> Inl err
                | Inr v \<Rightarrow> Inr (s\<lparr>proposals := (proposals s)(i := p\<lparr>againstVotes := v\<rparr>),
                                hasVoted := (hasVoted s)(i := (hasVoted s i)(msg_sender e := True))\<rparr>)))"
  by (simp add: vote_def nonReentrant_def vote_body_def Let_def split: sum.splits)

lemma vote_step:
  assumes "dao_inv b s" "b \<le> block_number e" "vote e tok i support s = Inr s'"
  shows "dao_inv (block_number e) s'"
proof -
  have latch: "\<not> entered s" using assms(1) by (simp add: dao_inv_def)
  have m: "dao_inv (block_number e) s" by (rule dao_inv_mono [OF assms(1,2)])
  from assms(3) obtain p' where s': "s' = s\<lparr>proposals := (proposals s)(i := p'),
        hasVoted := (hasVoted s)(i := (hasVoted s i)(msg_sender e := True))\<rparr>"
    and p': "p' = (proposals s i)\<lparr>forVotes := forVotes p'\<rparr> \<or> p' = (proposals s i)\<lparr>againstVotes := againstVotes p'\<rparr>"
    and ex: "id_p (proposals s i) \<noteq> 0"
    by (auto simp: vote_unfold [OF latch] Let_def split: if_splits sum.splits)
  have "proposal_ok (block_number e) (nextProposalId s) i p'"
    using m p' ex unfolding dao_inv_def proposal_ok_def
    by (metis (no_types, lifting) Proposal.select_convs Proposal.surjective Proposal.update_convs(7,8))
  then show ?thesis using m by (auto simp: dao_inv_def s')
qed

lemma executeProposal_step:
  assumes "dao_inv b s" "b \<le> block_number e" "executeProposal e tok i s = Inr s'"
  shows "dao_inv (block_number e) s'"
proof -
  have latch: "\<not> entered s" using assms(1) by (simp add: dao_inv_def)
  have m: "dao_inv (block_number e) s" by (rule dao_inv_mono [OF assms(1,2)])
  from assms(3) have s': "s' = s\<lparr>proposals := (proposals s)(i := (proposals s i)\<lparr>executed := True\<rparr>)\<rparr>"
    and ex: "id_p (proposals s i) \<noteq> 0" "endBlock (proposals s i) < block_number e"
    by (auto simp: executeProposal_unfold [OF latch] Let_def split: if_splits sum.splits)
  have "proposal_ok (block_number e) (nextProposalId s) i ((proposals s i)\<lparr>executed := True\<rparr>)"
    using m ex by (auto simp: dao_inv_def proposal_ok_def)
  then show ?thesis using m by (auto simp: dao_inv_def s')
qed

lemma cancelProposal_Inr:
  "cancelProposal e i s = Inr s' \<longleftrightarrow>
     (msg_sender e = owner s \<and> id_p (proposals s i) \<noteq> 0 \<and> \<not> canceled (proposals s i)
      \<and> \<not> executed (proposals s i)
      \<and> s' = s\<lparr>proposals := (proposals s)(i := (proposals s i)\<lparr>canceled := True\<rparr>)\<rparr>)"
  by (auto simp: cancelProposal_def onlyOwner_def cancelProposal_body_def Let_def)

lemma cancelProposal_step:
  assumes "dao_inv b s" "b \<le> block_number e" "cancelProposal e i s = Inr s'"
  shows "dao_inv (block_number e) s'"
proof -
  have m: "dao_inv (block_number e) s" by (rule dao_inv_mono [OF assms(1,2)])
  from assms(3) have s': "s' = s\<lparr>proposals := (proposals s)(i := (proposals s i)\<lparr>canceled := True\<rparr>)\<rparr>"
    and ex: "id_p (proposals s i) \<noteq> 0"
    by (simp_all add: cancelProposal_Inr)
  have "proposal_ok (block_number e) (nextProposalId s) i ((proposals s i)\<lparr>canceled := True\<rparr>)"
    using m ex by (auto simp: dao_inv_def proposal_ok_def)
  then show ?thesis using m by (auto simp: dao_inv_def s')
qed

lemma setQuorumNumerator_Inr:
  "setQuorumNumerator e q s = Inr s' \<longleftrightarrow>
     (msg_sender e = owner s \<and> 0 < q \<and> q \<le> QUORUM_DENOMINATOR \<and> s' = s\<lparr>quorumNumerator := q\<rparr>)"
  by (auto simp: setQuorumNumerator_def onlyOwner_def)

lemma setVotingPeriodBlocks_Inr:
  "setVotingPeriodBlocks e n s = Inr s' \<longleftrightarrow>
     (msg_sender e = owner s \<and> 0 < n \<and> s' = s\<lparr>votingPeriodBlocks := n\<rparr>)"
  by (auto simp: setVotingPeriodBlocks_def onlyOwner_def)

lemma setters_step:
  assumes "dao_inv b s" "b \<le> block_number e"
  shows "setQuorumNumerator e q s = Inr s' \<Longrightarrow> dao_inv (block_number e) s'"
    and "setVotingPeriodBlocks e n s = Inr s' \<Longrightarrow> dao_inv (block_number e) s'"
  using dao_inv_mono [OF assms]
  by (auto simp: setQuorumNumerator_Inr setVotingPeriodBlocks_Inr dao_inv_def)

lemma constructor_inv:
  "constructor e token_addr quorum period = Inr s \<Longrightarrow> dao_inv b s"
  by (auto simp: constructor_def dao_inv_def proposal_ok_def zeroProposal_def split: if_splits)

lemma deploy_inv:
  "deploy e initialSupply token_addr quorum period = Inr w \<Longrightarrow> world_inv (block_number e) w"
  by (auto simp: deploy_def world_inv_def split: sum.splits
      intro: token_constructor_inv constructor_inv)

lemma mint_step:
  assumes "token_inv b tok" "b \<le> block_number e" "mint e to amount tok = Inr tok'"
  shows "token_inv (block_number e) tok' \<and> (S < block_number e \<longrightarrow> same_past S tok tok')"
  using assms mint_internal_step [OF assms(1,2), of to amount tok' S]
  by (simp add: mint_def split: if_splits)

lemma burn_step:
  assumes "token_inv b tok" "b \<le> block_number e" "burn e from amount tok = Inr tok'"
  shows "token_inv (block_number e) tok' \<and> (S < block_number e \<longrightarrow> same_past S tok tok')"
  using assms burn_internal_step [OF assms(1,2), of "from" amount tok' S]
  by (simp add: burn_def split: if_splits)

lemma burn_own_step:
  assumes "token_inv b tok" "b \<le> block_number e" "burn_own e amount tok = Inr tok'"
  shows "token_inv (block_number e) tok' \<and> (S < block_number e \<longrightarrow> same_past S tok tok')"
  using assms burn_internal_step [OF assms(1,2), of "msg_sender e" amount tok' S]
  by (simp add: burn_own_def)

lemma token_of_after:
  assumes "token_inv b (token w)" "b \<le> block_number (fst t)"
  shows "token_inv (block_number (fst t)) (token (after w t))
         \<and> (S < block_number (fst t) \<longrightarrow> same_past S (token w) (token (after w t)))"
proof (cases "snd t")
  case (Transfer to amount)
  then show ?thesis
    using transfer_step [OF assms, of to amount _ S] token_inv_mono [OF assms]
    by (auto simp: after_def on_token_def split: sum.splits)
next
  case (Mint to amount)
  then show ?thesis
    using mint_step [OF assms, of to amount _ S] token_inv_mono [OF assms]
    by (auto simp: after_def on_token_def split: sum.splits)
next
  case (Burn "from" amount)
  then show ?thesis
    using burn_step [OF assms, of "from" amount _ S] token_inv_mono [OF assms]
    by (auto simp: after_def on_token_def split: sum.splits)
next
  case (BurnOwn amount)
  then show ?thesis
    using burn_own_step [OF assms, of amount _ S] token_inv_mono [OF assms]
    by (auto simp: after_def on_token_def split: sum.splits)
next
  case (Delegate d)
  then show ?thesis
    using delegate_step [OF assms, of d _ S] token_inv_mono [OF assms]
    by (auto simp: after_def on_token_def split: sum.splits)
qed (use token_inv_mono [OF assms] in \<open>auto simp: after_def on_dao_def split: sum.splits\<close>)

lemma dao_of_after:
  assumes "dao_inv b (dao w)" "b \<le> block_number (fst t)"
  shows "dao_inv (block_number (fst t)) (dao (after w t))"
proof (cases "snd t")
  case (CreateProposal d)
  then show ?thesis
    using createProposal_step [OF assms] dao_inv_mono [OF assms]
    by (auto simp: after_def split: sum.splits)
next
  case (Vote i support)
  then show ?thesis
    using vote_step [OF assms] dao_inv_mono [OF assms]
    by (auto simp: after_def on_dao_def split: sum.splits)
next
  case (ExecuteProposal i)
  then show ?thesis
    using executeProposal_step [OF assms] dao_inv_mono [OF assms]
    by (auto simp: after_def on_dao_def split: sum.splits)
next
  case (CancelProposal i)
  then show ?thesis
    using cancelProposal_step [OF assms] dao_inv_mono [OF assms]
    by (auto simp: after_def on_dao_def split: sum.splits)
next
  case (SetQuorumNumerator q)
  then show ?thesis
    using setters_step(1) [OF assms] dao_inv_mono [OF assms]
    by (auto simp: after_def on_dao_def split: sum.splits)
next
  case (SetVotingPeriodBlocks n)
  then show ?thesis
    using setters_step(2) [OF assms] dao_inv_mono [OF assms]
    by (auto simp: after_def on_dao_def split: sum.splits)
qed (use dao_inv_mono [OF assms] in \<open>auto simp: after_def on_token_def split: sum.splits\<close>)

lemma after_inv:
  "world_inv b w \<Longrightarrow> b \<le> block_number (fst t) \<Longrightarrow> world_inv (block_number (fst t)) (after w t)"
  using token_of_after [of b w t 0] dao_of_after [of b w t] by (simp add: world_inv_def)

lemma run_inv:
  "world_inv b w \<Longrightarrow> chronological b txs \<Longrightarrow> world_inv (clock b txs) (run w txs)"
  by (induction txs arbitrary: b w) (auto intro: after_inv)

lemma clock_mono: "chronological b txs \<Longrightarrow> b \<le> clock b txs"
  by (induction txs arbitrary: b) (auto intro: order_trans)

lemma chronological_append:
  "chronological b (xs @ ys) \<longleftrightarrow> chronological b xs \<and> chronological (clock b xs) ys"
  by (induction xs arbitrary: b) auto

lemma run_append: "run w (xs @ ys) = run (run w xs) ys"
  by (induction xs arbitrary: w) auto

lemma clock_append: "clock b (xs @ ys) = clock (clock b xs) ys"
  by (induction xs arbitrary: b) auto

section \<open>Snapshots are immutable\<close>

lemma run_token_past:
  "token_inv b (token w) \<Longrightarrow> chronological b txs \<Longrightarrow> \<forall>t \<in> set txs. S < block_number (fst t) \<Longrightarrow>
   token_inv (clock b txs) (token (run w txs)) \<and> same_past S (token w) (token (run w txs))"
proof (induction txs arbitrary: b w)
  case Nil
  then show ?case by simp
next
  case (Cons t txs)
  from Cons.prems have le: "b \<le> block_number (fst t)" and rest: "chronological (block_number (fst t)) txs"
    and S: "S < block_number (fst t)" and Ss: "\<forall>t \<in> set txs. S < block_number (fst t)"
    by simp_all
  from token_of_after [OF Cons.prems(1) le, of S] S
  have 1: "token_inv (block_number (fst t)) (token (after w t))" "same_past S (token w) (token (after w t))"
    by simp_all
  from Cons.IH [OF 1(1) rest Ss] 1(2) show ?case
    by (auto intro: same_past_trans)
qed

lemma lookup_same_past:
  assumes "token_inv b tok" "token_inv b' tok'" "same_past S tok tok'"
  shows "upperLookup (delegateCheckpoints tok' a) S = upperLookup (delegateCheckpoints tok a) S"
    and "upperLookup (totalCheckpoints tok') S = upperLookup (totalCheckpoints tok) S"
  using assms
  by (simp_all add: token_inv_def series_ok_def upperLookup_latest_at latest_at_def same_past_def)

lemma vote_same_weight:
  assumes "getPastVotes e tok' (msg_sender e) (snapshotBlock (proposals s i))
           = getPastVotes e tok (msg_sender e) (snapshotBlock (proposals s i))"
  shows "vote e tok' i support s = vote e tok i support s"
  using assms
  by (simp add: vote_def nonReentrant_def vote_body_def Let_def)

text \<open>
  C2, snapshot immutability. In every execution from deployment, the transactions that
  run at blocks after \<open>S\<close> leave every checkpoint with sequence number \<open>\<le> S\<close> as it
  was, in every delegate's series and in the total-supply series; \<open>getPastVotes\<close> and
  \<open>getPastTotalSupply\<close> at \<open>S\<close> return what they returned before them, and a vote on a
  proposal whose snapshot is \<open>S\<close> computes the same result against the later ledger.
\<close>

theorem snapshot_immutability:
  assumes "deploy e0 supply addr q n = Inr w0"
    and "chronological (block_number e0) (pre @ post)"
    and "\<forall>t \<in> set post. S < block_number (fst t)"
  shows "same_past S (token (run w0 pre)) (token (run w0 (pre @ post)))
    \<and> (\<forall>e voter. getPastVotes e (token (run w0 (pre @ post))) voter S
                  = getPastVotes e (token (run w0 pre)) voter S)
    \<and> (\<forall>e. getPastTotalSupply e (token (run w0 (pre @ post))) S
            = getPastTotalSupply e (token (run w0 pre)) S)
    \<and> (\<forall>e s i support. snapshotBlock (proposals s i) = S \<longrightarrow>
          vote e (token (run w0 (pre @ post))) i support s = vote e (token (run w0 pre)) i support s)"
proof -
  let ?b = "block_number e0"
  from assms(2) have c1: "chronological ?b pre" and c2: "chronological (clock ?b pre) post"
    by (simp_all add: chronological_append)
  have "world_inv (clock ?b pre) (run w0 pre)"
    by (rule run_inv [OF deploy_inv [OF assms(1)] c1])
  then have inv1: "token_inv (clock ?b pre) (token (run w0 pre))" by (simp add: world_inv_def)
  from run_token_past [OF inv1 c2 assms(3)]
  have inv2: "token_inv (clock (clock ?b pre) post) (token (run w0 (pre @ post)))"
    and same: "same_past S (token (run w0 pre)) (token (run w0 (pre @ post)))"
    by (simp_all add: run_append)
  note look = lookup_same_past [OF inv1 inv2 same]
  have votes: "\<And>e voter. getPastVotes e (token (run w0 (pre @ post))) voter S
                  = getPastVotes e (token (run w0 pre)) voter S"
    by (simp add: getPastVotes_def look)
  have total: "\<And>e. getPastTotalSupply e (token (run w0 (pre @ post))) S
            = getPastTotalSupply e (token (run w0 pre)) S"
    by (simp add: getPastTotalSupply_def look)
  show ?thesis using same votes total vote_same_weight by blast
qed

lemma preparation_chronological: "chronological (block_number (from_at 1 1)) (preparation @ movements)"
  by code_simp

theorem snapshot_immutability_witness:
  "deploy (from_at 1 1) 1000000 100 20 5 = Inr genesis
   \<and> chronological (block_number (from_at 1 1)) (preparation @ movements)
   \<and> getPastVotes (from_at 9 16) (token (run genesis (preparation @ movements))) 2 10 = Inr 300000
   \<and> getVotes (token (run genesis (preparation @ movements))) 2 = 0"
proof -
  have a: "\<forall>t \<in> set movements. 10 < block_number (fst t)"
    by (simp add: movements_def from_at_def)
  have b: "getPastVotes (from_at 9 16) (token (run genesis preparation)) 2 10 = Inr 300000"
    by code_simp
  have c: "getVotes (token (run genesis (preparation @ movements))) 2 = 0"
    by code_simp
  show ?thesis
    using snapshot_immutability [OF deploy_genesis preparation_chronological a]
      deploy_genesis preparation_chronological b c
    by simp
qed

text \<open>
  The block of the snapshot itself is not "after": a checkpoint written at block \<open>S\<close>
  belongs to the snapshot at \<open>S\<close>, also when it is written after the proposal was created
  in that block. The holder below has no voting weight when the proposal is created and
  votes with 300,000.
\<close>

lemma snapshot_block_is_still_open:
  "getVotes (token (run genesis (take 2 late_delegation))) 2 = 0
   \<and> getPastVotes (from_at 2 11) (token (run genesis late_delegation)) 2 10 = Inr 300000
   \<and> outcome (run genesis late_delegation) (from_at 2 11, Vote 1 True) = Inr Done"
  by code_simp

section \<open>Canceled and executed are absorbing\<close>

lemma terminal_exists:
  assumes "dao_inv b s" "canceled (proposals s i) \<or> executed (proposals s i)"
  shows "id_p (proposals s i) \<noteq> 0" "i < nextProposalId s"
    "executed (proposals s i) \<longrightarrow> endBlock (proposals s i) < b"
proof -
  have ok: "proposal_ok b (nextProposalId s) i (proposals s i)"
    using assms(1) by (simp add: dao_inv_def)
  show ex: "id_p (proposals s i) \<noteq> 0"
    using ok assms(2) by (auto simp: proposal_ok_def zeroProposal_def split: if_splits)
  show "i < nextProposalId s" "executed (proposals s i) \<longrightarrow> endBlock (proposals s i) < b"
    using ok ex by (simp_all add: proposal_ok_def)
qed

lemma terminal_calls_fail:
  assumes "dao_inv b s" "b \<le> block_number e"
    and "canceled (proposals s i) \<or> executed (proposals s i)"
  shows "isl (vote e tok i support s)" "isl (executeProposal e tok i s)" "isl (cancelProposal e i s)"
proof -
  have latch: "\<not> entered s" using assms(1) by (simp add: dao_inv_def)
  note t = terminal_exists [OF assms(1,3)]
  have closed: "executed (proposals s i) \<longrightarrow> \<not> block_number e \<le> endBlock (proposals s i)"
    using t(3) assms(2) by auto
  show "isl (vote e tok i support s)"
    using assms(3) closed by (auto simp: vote_unfold [OF latch] Let_def)
  show "isl (executeProposal e tok i s)"
    using assms(3) by (auto simp: executeProposal_unfold [OF latch] Let_def)
  show "isl (cancelProposal e i s)"
    using assms(3)
    by (auto simp: cancelProposal_def onlyOwner_def cancelProposal_body_def Let_def)
qed

lemma terminal_persists:
  assumes "dao_inv b (dao w)" "b \<le> block_number (fst t)"
    and "canceled (proposals (dao w) i) \<or> executed (proposals (dao w) i)"
  shows "canceled (proposals (dao (after w t)) i) \<or> executed (proposals (dao (after w t)) i)"
proof (cases "snd t")
  case (CreateProposal d)
  have "i \<noteq> nextProposalId (dao w)" using terminal_exists(2) [OF assms(1,3)] by simp
  then show ?thesis
    using CreateProposal assms(3)
    by (auto simp: after_def createProposal_Inr split: sum.splits)
next
  case (Vote j support)
  have latch: "\<not> entered (dao w)" using assms(1) by (simp add: dao_inv_def)
  show ?thesis
    using Vote assms(3)
    by (auto simp: after_def on_dao_def vote_unfold [OF latch] Let_def split: sum.splits if_splits)
next
  case (ExecuteProposal j)
  have latch: "\<not> entered (dao w)" using assms(1) by (simp add: dao_inv_def)
  show ?thesis
    using ExecuteProposal assms(3)
    by (auto simp: after_def on_dao_def executeProposal_unfold [OF latch] Let_def
        split: sum.splits if_splits)
next
  case (CancelProposal j)
  then show ?thesis
    using assms(3)
    by (auto simp: after_def on_dao_def cancelProposal_Inr split: sum.splits)
next
  case (SetQuorumNumerator q)
  then show ?thesis
    using assms(3)
    by (auto simp: after_def on_dao_def setQuorumNumerator_Inr split: sum.splits)
next
  case (SetVotingPeriodBlocks n)
  then show ?thesis
    using assms(3)
    by (auto simp: after_def on_dao_def setVotingPeriodBlocks_Inr split: sum.splits)
qed (use assms(3) in \<open>auto simp: after_def on_token_def split: sum.splits\<close>)

lemma terminal_run:
  "world_inv b w \<Longrightarrow> chronological b txs \<Longrightarrow>
   canceled (proposals (dao w) i) \<or> executed (proposals (dao w) i) \<Longrightarrow>
   canceled (proposals (dao (run w txs)) i) \<or> executed (proposals (dao (run w txs)) i)"
proof (induction txs arbitrary: b w)
  case Nil
  then show ?case by simp
next
  case (Cons t txs)
  from Cons.prems have le: "b \<le> block_number (fst t)" and rest: "chronological (block_number (fst t)) txs"
    by simp_all
  have d: "dao_inv b (dao w)" using Cons.prems(1) by (simp add: world_inv_def)
  show ?case
    using Cons.IH [OF after_inv [OF Cons.prems(1) le] rest terminal_persists [OF d le Cons.prems(3)]]
    by simp
qed

lemma outcome_isl:
  "outcome w (e, Vote i support) = Inl err \<longleftrightarrow> vote e (token w) i support (dao w) = Inl err"
  "outcome w (e, ExecuteProposal i) = Inl err \<longleftrightarrow> executeProposal e (token w) i (dao w) = Inl err"
  "outcome w (e, CancelProposal i) = Inl err \<longleftrightarrow> cancelProposal e i (dao w) = Inl err"
  by (auto simp: outcome_def on_dao_def split: sum.splits)

text \<open>
  C4, terminal absorption. In every execution from deployment whose block numbers never
  decrease: once a proposal's \<open>canceled\<close> or \<open>executed\<close> flag is set, every later \<open>vote\<close>,
  \<open>executeProposal\<close> and \<open>cancelProposal\<close> on that proposal fails, whatever happened in
  between.
\<close>

theorem terminal_absorption:
  assumes "deploy e0 supply addr q n = Inr w0"
    and "chronological (block_number e0) (pre @ post @ [t])"
    and "canceled (proposals (dao (run w0 pre)) i) \<or> executed (proposals (dao (run w0 pre)) i)"
    and "targets i (snd t)"
  shows "isl (outcome (run w0 (pre @ post)) t)"
proof -
  let ?b = "block_number e0"
  let ?w = "run w0 (pre @ post)"
  from assms(2) have c1: "chronological ?b pre" and c2: "chronological (clock ?b pre) post"
    and c3: "clock ?b (pre @ post) \<le> block_number (fst t)"
    by (simp_all add: chronological_append clock_append)
  have inv1: "world_inv (clock ?b pre) (run w0 pre)"
    by (rule run_inv [OF deploy_inv [OF assms(1)] c1])
  have inv2: "world_inv (clock ?b (pre @ post)) ?w"
    using run_inv [OF inv1 c2] by (simp add: run_append clock_append)
  have flagged: "canceled (proposals (dao ?w) i) \<or> executed (proposals (dao ?w) i)"
    using terminal_run [OF inv1 c2 assms(3)] by (simp add: run_append)
  have d: "dao_inv (clock ?b (pre @ post)) (dao ?w)" using inv2 by (simp add: world_inv_def)
  note fails = terminal_calls_fail [OF d c3 flagged]
  obtain e c where t: "t = (e, c)" by (cases t)
  show ?thesis
  proof (cases c)
    case (Vote j support)
    then show ?thesis
      using assms(4) fails(1) [of "token ?w" support]
      by (auto simp: t outcome_def on_dao_def isl_def split: sum.splits)
  next
    case (ExecuteProposal j)
    then show ?thesis
      using assms(4) fails(2) [of "token ?w"]
      by (auto simp: t outcome_def on_dao_def isl_def split: sum.splits)
  next
    case (CancelProposal j)
    then show ?thesis
      using assms(4) fails(3)
      by (auto simp: t outcome_def on_dao_def isl_def split: sum.splits)
  qed (use assms(4) t in simp_all)
qed

lemma execution_chronological:
  "chronological (block_number (from_at 1 1))
     ((preparation @ ballots @ execution) @ aftermath @ [(from_at 4 17, Vote 1 True)])"
  by code_simp

theorem terminal_absorption_witness:
  "deploy (from_at 1 1) 1000000 100 20 5 = Inr genesis
   \<and> executed (proposals (dao (run genesis (preparation @ ballots @ execution))) 1)
   \<and> targets 1 (snd (from_at 4 17, Vote 1 True))
   \<and> isl (outcome (run genesis ((preparation @ ballots @ execution) @ aftermath))
             (from_at 4 17, Vote 1 True))"
proof -
  have a: "canceled (proposals (dao (run genesis (preparation @ ballots @ execution))) 1)
           \<or> executed (proposals (dao (run genesis (preparation @ ballots @ execution))) 1)"
    by code_simp
  have b: "executed (proposals (dao (run genesis (preparation @ ballots @ execution))) 1)"
    by code_simp
  have c: "targets 1 (snd (from_at 4 17, Vote 1 True))" by simp
  show ?thesis
    using terminal_absorption [OF deploy_genesis execution_chronological a c] deploy_genesis b c
    by simp
qed

text \<open>
  The clock matters for the vote after an execution: \<open>vote\<close> does not read the
  \<open>executed\<close> flag, and with a block number that went back into the window it would
  succeed.
\<close>

lemma vote_after_execution_needs_the_clock:
  "outcome (run genesis (preparation @ ballots @ execution)) (from_at 4 15, Vote 1 True) = Inr Done"
  by code_simp

section \<open>Creation of proposals\<close>

lemma createProposal_Inl:
  "createProposal e descr s = Inl err \<longleftrightarrow>
     (\<not> (uint (block_number e) + uint (votingPeriodBlocks s) < 2 ^ 256
         \<and> uint (nextProposalId s) + 1 < 2 ^ 256) \<and> err = ArithmeticPanic)"
  by (auto simp: createProposal_def checked_add_def Let_def split: sum.splits)

lemma vote_next:
  "vote e tok i support s = Inr s' \<Longrightarrow> nextProposalId s' = nextProposalId s"
  by (auto simp: vote_def nonReentrant_def vote_body_def Let_def split: if_splits sum.splits)

lemma executeProposal_next:
  "executeProposal e tok i s = Inr s' \<Longrightarrow> nextProposalId s' = nextProposalId s"
  by (auto simp: executeProposal_def nonReentrant_def executeProposal_body_def Let_def
      split: if_splits sum.splits)

lemma perform_next:
  assumes "perform w e c = Inr (r, w')"
  shows "(\<exists>d. c = CreateProposal d) \<longrightarrow>
           r = Created (nextProposalId (dao w))
           \<and> unat (nextProposalId (dao w')) = Suc (unat (nextProposalId (dao w)))"
    and "(\<forall>d. c \<noteq> CreateProposal d) \<longrightarrow>
           r = Done \<and> nextProposalId (dao w') = nextProposalId (dao w)"
proof -
  show "(\<exists>d. c = CreateProposal d) \<longrightarrow>
           r = Created (nextProposalId (dao w))
           \<and> unat (nextProposalId (dao w')) = Suc (unat (nextProposalId (dao w)))"
  proof
    assume "\<exists>d. c = CreateProposal d"
    then obtain d where c: "c = CreateProposal d" by blast
    from assms obtain pid s' where cr: "createProposal e d (dao w) = Inr (pid, s')"
      and r: "r = Created pid" and w': "w' = w\<lparr>dao := s'\<rparr>"
      by (auto simp: c split: sum.splits)
    have "checked_add (nextProposalId (dao w)) 1 = Inr (nextProposalId s')" "pid = nextProposalId (dao w)"
      using cr unfolding createProposal_Inr by (simp_all add: checked_add_def)
    with checked_add_Inr(4) [OF this(1)] r w'
    show "r = Created (nextProposalId (dao w))
           \<and> unat (nextProposalId (dao w')) = Suc (unat (nextProposalId (dao w)))"
      by simp
  qed
  show "(\<forall>d. c \<noteq> CreateProposal d) \<longrightarrow>
           r = Done \<and> nextProposalId (dao w') = nextProposalId (dao w)"
  proof (cases c)
    case (Vote i support)
    then show ?thesis using assms vote_next [of e "token w" i support "dao w"]
      by (auto simp: on_dao_def split: sum.splits)
  next
    case (ExecuteProposal i)
    then show ?thesis using assms executeProposal_next [of e "token w" i "dao w"]
      by (auto simp: on_dao_def split: sum.splits)
  next
    case (CancelProposal i)
    then show ?thesis using assms
      by (auto simp: on_dao_def cancelProposal_Inr split: sum.splits)
  next
    case (SetQuorumNumerator q)
    then show ?thesis using assms
      by (auto simp: on_dao_def setQuorumNumerator_Inr split: sum.splits)
  next
    case (SetVotingPeriodBlocks n)
    then show ?thesis using assms
      by (auto simp: on_dao_def setVotingPeriodBlocks_Inr split: sum.splits)
  qed (use assms in \<open>auto simp: on_token_def split: sum.splits\<close>)
qed

lemma created_ids_run:
  "map unat (created_ids (outcomes w txs)) =
     [unat (nextProposalId (dao w)) ..< unat (nextProposalId (dao w)) + length (created_ids (outcomes w txs))]
   \<and> unat (nextProposalId (dao (run w txs))) =
       unat (nextProposalId (dao w)) + length (created_ids (outcomes w txs))"
proof (induction txs arbitrary: w)
  case Nil
  then show ?case by simp
next
  case (Cons t txs)
  let ?N = "unat (nextProposalId (dao w))"
  let ?L = "length (created_ids (outcomes (after w t) txs))"
  show ?case
  proof (cases "perform w (fst t) (snd t)")
    case (Inl err)
    then have a: "after w t = w" and o: "outcome w t = Inl err"
      by (simp_all add: after_def outcome_def)
    show ?thesis using Cons.IH [of w] by (simp add: a o)
  next
    case (Inr rw)
    obtain r w' where rw: "rw = (r, w')" by (cases rw)
    have a: "after w t = w'" and o: "outcome w t = Inr r"
      using Inr rw by (simp_all add: after_def outcome_def)
    note nx = perform_next [OF Inr [unfolded rw]]
    show ?thesis
    proof (cases "\<exists>d. snd t = CreateProposal d")
      case True
      then have r: "r = Created (nextProposalId (dao w))"
        and n: "unat (nextProposalId (dao w')) = Suc ?N"
        using nx(1) by simp_all
      have ih: "map unat (created_ids (outcomes w' txs)) = [Suc ?N ..< Suc ?N + length (created_ids (outcomes w' txs))]"
        "unat (nextProposalId (dao (run w' txs))) = Suc ?N + length (created_ids (outcomes w' txs))"
        using Cons.IH [of w'] by (simp_all only: n)
      have lt: "?N < ?N + Suc (length (created_ids (outcomes w' txs)))" by simp
      have u: "[?N ..< ?N + Suc (length (created_ids (outcomes w' txs)))]
               = ?N # [Suc ?N ..< Suc ?N + length (created_ids (outcomes w' txs))]"
        using upt_conv_Cons [OF lt] by (simp only: add_Suc_right add_Suc)
      have c: "created_ids (outcomes w (t # txs)) = nextProposalId (dao w) # created_ids (outcomes w' txs)"
        by (simp add: a o r)
      show ?thesis
        by (simp only: c list.map ih u length_Cons run.simps a) simp
    next
      case False
      then have r: "r = Done" and n: "nextProposalId (dao w') = nextProposalId (dao w)"
        using nx(2) by simp_all
      show ?thesis using Cons.IH [of w'] by (simp add: a o r n)
    qed
  qed
qed

lemma deploy_next: "deploy e initialSupply token_addr quorum period = Inr w \<Longrightarrow> nextProposalId (dao w) = 1"
  by (auto simp: deploy_def constructor_def split: sum.splits if_splits)

text \<open>
  C8, as amended. \<open>createProposal\<close> reverts with an arithmetic panic when
  \<open>block.number + votingPeriodBlocks\<close> or the increment of the identity counter does not
  fit in 256 bits, and then stores nothing. Every other call returns the counter's value
  as the identity, advances the counter by one and stores under that identity a proposal
  with \<open>snapshot = start =\<close> the current block, \<open>end = start + votingPeriodBlocks\<close> (the
  true sum), zero tallies and clear flags. In every execution from deployment the
  identities returned are 1, 2, 3, ... in order.
\<close>

theorem createProposal_assigns:
  "(createProposal e descr s =
      (if uint (block_number e) + uint (votingPeriodBlocks s) < 2 ^ 256
          \<and> uint (nextProposalId s) + 1 < 2 ^ 256
       then Inr (nextProposalId s,
                 s\<lparr>nextProposalId := nextProposalId s + 1,
                   proposals := (proposals s)(nextProposalId s :=
                     \<lparr>id_p = nextProposalId s, proposer = msg_sender e, description = descr,
                      snapshotBlock = block_number e, startBlock = block_number e,
                      endBlock = block_number e + votingPeriodBlocks s,
                      forVotes = 0, againstVotes = 0, canceled = False, executed = False\<rparr>)\<rparr>)
       else Inl ArithmeticPanic))
   \<and> (uint (block_number e) + uint (votingPeriodBlocks s) < 2 ^ 256 \<longrightarrow>
        unat (block_number e + votingPeriodBlocks s) = unat (block_number e) + unat (votingPeriodBlocks s))
   \<and> (deploy e0 initialSupply token_addr quorum period = Inr w0 \<longrightarrow>
        map unat (created_ids (outcomes w0 txs)) = [1 ..< Suc (length (created_ids (outcomes w0 txs)))])"
proof -
  have 1: "createProposal e descr s =
      (if uint (block_number e) + uint (votingPeriodBlocks s) < 2 ^ 256
          \<and> uint (nextProposalId s) + 1 < 2 ^ 256
       then Inr (nextProposalId s,
                 s\<lparr>nextProposalId := nextProposalId s + 1,
                   proposals := (proposals s)(nextProposalId s :=
                     \<lparr>id_p = nextProposalId s, proposer = msg_sender e, description = descr,
                      snapshotBlock = block_number e, startBlock = block_number e,
                      endBlock = block_number e + votingPeriodBlocks s,
                      forVotes = 0, againstVotes = 0, canceled = False, executed = False\<rparr>)\<rparr>)
       else Inl ArithmeticPanic)"
    by (simp add: createProposal_def checked_add_def Let_def)
  have 2: "uint (block_number e) + uint (votingPeriodBlocks s) < 2 ^ 256 \<longrightarrow>
        unat (block_number e + votingPeriodBlocks s) = unat (block_number e) + unat (votingPeriodBlocks s)"
    using checked_add_Inr(4) [of "block_number e" "votingPeriodBlocks s"]
    by (simp add: checked_add_def)
  have 3: "deploy e0 initialSupply token_addr quorum period = Inr w0 \<longrightarrow>
        map unat (created_ids (outcomes w0 txs)) = [1 ..< Suc (length (created_ids (outcomes w0 txs)))]"
    using created_ids_run [of w0 txs] deploy_next [of e0 initialSupply token_addr quorum period w0]
    by auto
  show ?thesis by (rule conjI [OF 1 conjI [OF 2 3]])
qed

section \<open>Classification by \<open>state\<close> and the first block of the window\<close>

lemma reachable_inv:
  assumes "deploy e0 initialSupply token_addr quorum period = Inr w0"
    and "chronological (block_number e0) txs"
  shows "world_inv (clock (block_number e0) txs) (run w0 txs)"
  by (rule run_inv [OF deploy_inv [OF assms(1)] assms(2)])

lemma state_closed:
  assumes "id_p (proposals s i) \<noteq> 0" "\<not> canceled (proposals s i)" "\<not> executed (proposals s i)"
    and "endBlock (proposals s i) < block_number e"
    and "snapshotBlock (proposals s i) < block_number e"
  shows "state e tok s i =
           (if uint (upperLookup (totalCheckpoints tok) (snapshotBlock (proposals s i)))
                 * uint (quorumNumerator s) < 2 ^ 256
            then Inr (tally_spec
                   (unat (upperLookup (totalCheckpoints tok) (snapshotBlock (proposals s i))))
                   (unat (quorumNumerator s))
                   (unat (forVotes (proposals s i))) (unat (againstVotes (proposals s i))))
            else Inl ArithmeticPanic)"
proof (cases "uint (upperLookup (totalCheckpoints tok) (snapshotBlock (proposals s i)))
                 * uint (quorumNumerator s) < 2 ^ 256")
  case True
  show ?thesis
    using assms True unat_required_quorum [OF True]
    by (simp add: state_def Let_def getPastTotalSupply_def checked_mul_def uint_ucast_numerator
        tally_spec_def word_le_nat_alt word_less_nat_alt)
next
  case False
  then show ?thesis
    using assms
    by (simp add: state_def Let_def getPastTotalSupply_def checked_mul_def uint_ucast_numerator
        linorder_not_le)
qed

lemma tally_spec_tie: "tally_spec supply numerator v v = Defeated"
  by (simp add: tally_spec_def)

text \<open>
  C1. In every world reached from deployment by an execution whose block numbers never
  decrease, and for every proposal identity: \<open>state\<close> returns \<open>Unknown\<close> for an absent
  proposal, \<open>Canceled\<close> and \<open>Executed\<close> by the flags, \<open>Active\<close> while the current block is
  \<open>\<le>\<close> end, and afterwards \<open>Succeeded\<close> exactly when
  \<open>forVotes \<ge> floor(supply * quorumNumerator / 100)\<close> and \<open>forVotes > againstVotes\<close>, where
  \<open>supply\<close> is the weight of the latest total-supply checkpoint not after the snapshot,
  else \<open>Defeated\<close>; a tie is never \<open>Succeeded\<close>. The product is a checked \<open>uint256\<close>
  product: when it does not fit, the view reverts.
\<close>

theorem state_classification:
  assumes "deploy e0 initialSupply token_addr quorum period = Inr w0"
    and "chronological (block_number e0) txs"
    and "w = run w0 txs" and "p = proposals (dao w) i"
    and "ts = latest_at (totalCheckpoints (token w)) (snapshotBlock p)"
  shows "state e (token w) (dao w) i =
     (if id_p p = 0 then Inr Unknown
      else if canceled p then Inr Canceled
      else if executed p then Inr Executed
      else if block_number e \<le> endBlock p then Inr Active
      else if uint ts * uint (quorumNumerator (dao w)) < 2 ^ 256
      then Inr (if requiredQuorum_spec (unat ts) (unat (quorumNumerator (dao w))) \<le> unat (forVotes p)
                   \<and> unat (againstVotes p) < unat (forVotes p)
                then Succeeded else Defeated)
      else Inl ArithmeticPanic)
    \<and> (forVotes p = againstVotes p \<longrightarrow> state e (token w) (dao w) i \<noteq> Inr Succeeded)"
proof -
  let ?p = "proposals (dao w) i"
  let ?ts = "latest_at (totalCheckpoints (token w)) (snapshotBlock ?p)"
  have inv: "world_inv (clock (block_number e0) txs) w"
    unfolding assms(3) by (rule reachable_inv [OF assms(1,2)])
  then have ok: "proposal_ok (clock (block_number e0) txs) (nextProposalId (dao w)) i ?p"
    and inc: "increasing (totalCheckpoints (token w))"
    by (simp_all add: world_inv_def dao_inv_def token_inv_def series_ok_def)
  have ts: "upperLookup (totalCheckpoints (token w)) (snapshotBlock ?p) = ?ts"
    by (simp add: upperLookup_latest_at [OF inc])
  have eq: "state e (token w) (dao w) i =
     (if id_p ?p = 0 then Inr Unknown
      else if canceled ?p then Inr Canceled
      else if executed ?p then Inr Executed
      else if block_number e \<le> endBlock ?p then Inr Active
      else if uint ?ts * uint (quorumNumerator (dao w)) < 2 ^ 256
      then Inr (if requiredQuorum_spec (unat ?ts) (unat (quorumNumerator (dao w))) \<le> unat (forVotes ?p)
                   \<and> unat (againstVotes ?p) < unat (forVotes ?p)
                then Succeeded else Defeated)
      else Inl ArithmeticPanic)"
  proof (cases "id_p ?p \<noteq> 0 \<and> \<not> canceled ?p \<and> \<not> executed ?p \<and> endBlock ?p < block_number e")
    case True
    then have "snapshotBlock ?p \<le> endBlock ?p" using ok by (simp add: proposal_ok_def)
    then have snap: "snapshotBlock ?p < block_number e"
      using True by (auto intro: order_le_less_trans)
    have "state e (token w) (dao w) i =
           (if uint ?ts * uint (quorumNumerator (dao w)) < 2 ^ 256
            then Inr (tally_spec (unat ?ts) (unat (quorumNumerator (dao w)))
                   (unat (forVotes ?p)) (unat (againstVotes ?p)))
            else Inl ArithmeticPanic)"
      using state_closed [OF conjunct1 [OF True] conjunct1 [OF conjunct2 [OF True]]
          conjunct1 [OF conjunct2 [OF conjunct2 [OF True]]]
          conjunct2 [OF conjunct2 [OF conjunct2 [OF True]]] snap, of "token w"]
      by (simp only: ts)
    then show ?thesis using True by (simp add: tally_spec_def linorder_not_le)
  next
    case False
    then show ?thesis
      by (auto simp: state_def Let_def linorder_not_le)
  qed
  have tie: "forVotes ?p = againstVotes ?p \<longrightarrow> state e (token w) (dao w) i \<noteq> Inr Succeeded"
    unfolding eq by simp
  show ?thesis
    unfolding assms(5) assms(4) by (rule conjI [OF eq tie])
qed

text \<open>
  C10. In every world reached from deployment: a successful vote happens at a block
  strictly after the proposal's start; at the start block itself (which is the snapshot)
  the window checks pass, and the vote fails, with \<open>FutureSequenceQuery\<close> from
  \<open>getPastVotes\<close> when the proposal is not canceled and the caller has not voted.
\<close>

theorem vote_at_start_fails:
  assumes "deploy e0 initialSupply token_addr quorum period = Inr w0"
    and "chronological (block_number e0) txs"
    and "w = run w0 txs" and "p = proposals (dao w) i"
  shows "(\<forall>s'. vote e (token w) i support (dao w) = Inr s' \<longrightarrow> startBlock p < block_number e)
    \<and> (id_p p \<noteq> 0 \<and> block_number e = startBlock p \<longrightarrow>
          snapshotBlock p = startBlock p \<and> startBlock p \<le> block_number e
          \<and> block_number e \<le> endBlock p \<and> isl (vote e (token w) i support (dao w)))
    \<and> (id_p p \<noteq> 0 \<and> \<not> canceled p \<and> \<not> hasVoted (dao w) i (msg_sender e)
          \<and> block_number e = startBlock p \<longrightarrow>
          vote e (token w) i support (dao w) = Inl FutureSequenceQuery)"
proof -
  let ?p = "proposals (dao w) i"
  have inv: "world_inv (clock (block_number e0) txs) w"
    unfolding assms(3) by (rule reachable_inv [OF assms(1,2)])
  then have ok: "proposal_ok (clock (block_number e0) txs) (nextProposalId (dao w)) i ?p"
    and latch: "\<not> entered (dao w)"
    by (simp_all add: world_inv_def dao_inv_def)
  have shape: "id_p ?p \<noteq> 0 \<longrightarrow> snapshotBlock ?p = startBlock ?p \<and> startBlock ?p \<le> endBlock ?p"
    using ok by (simp add: proposal_ok_def)
  have at_start: "id_p ?p \<noteq> 0 \<and> block_number e = startBlock ?p \<longrightarrow>
      isl (vote e (token w) i support (dao w))"
    using shape
    by (auto simp: vote_unfold [OF latch] Let_def getPastVotes_def)
  have 1: "\<forall>s'. vote e (token w) i support (dao w) = Inr s' \<longrightarrow> startBlock ?p < block_number e"
  proof (intro allI impI)
    fix s' assume v: "vote e (token w) i support (dao w) = Inr s'"
    then have ex: "id_p ?p \<noteq> 0" and ge: "startBlock ?p \<le> block_number e"
      by (auto simp: vote_unfold [OF latch] Let_def split: if_splits)
    have "block_number e \<noteq> startBlock ?p" using at_start ex v by auto
    with ge show "startBlock ?p < block_number e" by simp
  qed
  have 2: "id_p ?p \<noteq> 0 \<and> block_number e = startBlock ?p \<longrightarrow>
          snapshotBlock ?p = startBlock ?p \<and> startBlock ?p \<le> block_number e
          \<and> block_number e \<le> endBlock ?p \<and> isl (vote e (token w) i support (dao w))"
    using shape at_start by auto
  have 3: "id_p ?p \<noteq> 0 \<and> \<not> canceled ?p \<and> \<not> hasVoted (dao w) i (msg_sender e)
          \<and> block_number e = startBlock ?p \<longrightarrow>
          vote e (token w) i support (dao w) = Inl FutureSequenceQuery"
    using shape
    by (auto simp: vote_unfold [OF latch] Let_def getPastVotes_def)
  show ?thesis unfolding assms(4) by (rule conjI [OF 1 conjI [OF 2 3]])
qed


section \<open>The theorems on the scenario\<close>

text \<open>
  The claim C8 as stated, for every call, fails: once the period is the largest
  \<open>uint256\<close>, \<open>createProposal\<close> reverts at any block after 0.
\<close>

theorem createProposal_every_call_counterexample:
  "outcomes genesis unbounded_period = [Inr Done, Inl ArithmeticPanic]"
  by code_simp

theorem createProposal_assigns_witness:
  "deploy (from_at 1 1) 1000000 100 20 5 = Inr genesis
   \<and> map unat (created_ids (outcomes genesis proposing)) = [1, 2]
   \<and> uint (block_number (from_at 2 10)) + uint (votingPeriodBlocks (dao genesis)) < 2 ^ 256
   \<and> unat (block_number (from_at 2 10) + votingPeriodBlocks (dao genesis))
       = unat (block_number (from_at 2 10)) + unat (votingPeriodBlocks (dao genesis))"
proof -
  have fits: "uint (block_number (from_at 2 10)) + uint (votingPeriodBlocks (dao genesis)) < 2 ^ 256"
    by code_simp
  have len: "length (created_ids (outcomes genesis proposing)) = 2" by code_simp
  have upt: "[1 ..< Suc 2] = [1 :: nat, 2]" by code_simp
  show ?thesis
    using createProposal_assigns [where ?e0.0 = "from_at 1 1" and initialSupply = 1000000
        and token_addr = 100 and quorum = 20 and period = 5 and ?w0.0 = genesis
        and txs = proposing and e = "from_at 2 10" and descr = "[]" and s = "dao genesis"]
      deploy_genesis fits
    by (simp only: len upt simp_thms)
qed

lemma ballots_chronological: "chronological (block_number (from_at 1 1)) (preparation @ ballots)"
  by code_simp

lemma voted_proposal:
  "proposals (dao voted) 1 =
     \<lparr>id_p = 1, proposer = 2, description = ''upgrade'', snapshotBlock = 10, startBlock = 10,
      endBlock = 15, forVotes = 300000, againstVotes = 50000, canceled = False, executed = False\<rparr>"
  by code_simp

lemma voted_supply: "latest_at (totalCheckpoints (token voted)) 10 = 1000000"
  by code_simp

lemma voted_quorum: "quorumNumerator (dao voted) = 20"
  by code_simp

theorem state_classification_witness:
  "deploy (from_at 1 1) 1000000 100 20 5 = Inr genesis
   \<and> chronological (block_number (from_at 1 1)) (preparation @ ballots)
   \<and> state (from_at 9 16) (token voted) (dao voted) 1 = Inr Succeeded
   \<and> state (from_at 9 15) (token voted) (dao voted) 1 = Inr Active
   \<and> state (from_at 9 15) (token voted) (dao voted) 7 = Inr Unknown"
proof -
  have absent: "id_p (proposals (dao voted) 7) = 0" by code_simp
  note u = state_classification [OF deploy_genesis ballots_chronological voted_def refl refl,
      where i = 7 and e = "from_at 9 15"]
  have s: "snapshotBlock (proposals (dao voted) 1) = 10" by (simp add: voted_proposal)
  note c = state_classification [OF deploy_genesis ballots_chronological voted_def refl refl,
      where i = 1]
  show ?thesis
    using c [where e = "from_at 9 16"] c [where e = "from_at 9 15"] u absent
      deploy_genesis ballots_chronological
    by (simp add: voted_proposal voted_supply voted_quorum requiredQuorum_spec_def from_at_def)
qed

lemma preparation_only_chronological: "chronological (block_number (from_at 1 1)) preparation"
  by code_simp

theorem vote_at_start_fails_witness:
  "deploy (from_at 1 1) 1000000 100 20 5 = Inr genesis
   \<and> chronological (block_number (from_at 1 1)) preparation
   \<and> block_number (from_at 2 10) = startBlock (proposals (dao (run genesis preparation)) 1)
   \<and> vote (from_at 2 10) (token (run genesis preparation)) 1 True (dao (run genesis preparation))
       = Inl FutureSequenceQuery
   \<and> \<not> isl (vote (from_at 2 11) (token (run genesis preparation)) 1 True (dao (run genesis preparation)))
   \<and> startBlock (proposals (dao (run genesis preparation)) 1) < block_number (from_at 2 11)"
proof -
  have later: "\<not> isl (vote (from_at 2 11) (token (run genesis preparation)) 1 True
                       (dao (run genesis preparation)))"
    by code_simp
  then obtain s' where s': "vote (from_at 2 11) (token (run genesis preparation)) 1 True
                       (dao (run genesis preparation)) = Inr s'"
    by (cases "vote (from_at 2 11) (token (run genesis preparation)) 1 True
                       (dao (run genesis preparation))") simp_all
  have after_start: "startBlock (proposals (dao (run genesis preparation)) 1) < block_number (from_at 2 11)"
    using vote_at_start_fails [OF deploy_genesis preparation_only_chronological refl refl,
        where i = 1 and e = "from_at 2 11" and support = True] s'
    by blast
  have c: "id_p (proposals (dao (run genesis preparation)) 1) \<noteq> 0
     \<and> \<not> canceled (proposals (dao (run genesis preparation)) 1)
     \<and> \<not> hasVoted (dao (run genesis preparation)) 1 (msg_sender (from_at 2 10))
     \<and> block_number (from_at 2 10) = startBlock (proposals (dao (run genesis preparation)) 1)"
    by code_simp
  show ?thesis
    using vote_at_start_fails [OF deploy_genesis preparation_only_chronological refl refl,
        where i = 1 and e = "from_at 2 10" and support = True]
      c deploy_genesis preparation_only_chronological later after_start
    by simp
qed

section \<open>Voting\<close>

lemma after_vote:
  "after w (e, Vote i support) =
     (case vote e (token w) i support (dao w) of Inl err \<Rightarrow> w | Inr s' \<Rightarrow> w\<lparr>dao := s'\<rparr>)"
  by (simp add: after_def on_dao_def split: sum.splits)

text \<open>
  C3. Between calls the reentrancy latch is clear. Then \<open>vote\<close> fails with
  \<open>ProposalNotFound\<close>, \<open>ProposalCanceled\<close>, \<open>VotingNotStarted\<close> (current block before start),
  \<open>VotingClosed\<close> (after end), \<open>AlreadyVoted\<close> and \<open>NoVotingPower\<close> (the weight that
  \<open>getPastVotes\<close> returns for the caller at the snapshot is zero), in this order; a failed
  vote leaves the world as it was; a successful vote had a positive weight at the
  snapshot, sets the caller's receipt and adds exactly that weight (no wrap-around) to
  \<open>forVotes\<close> when \<open>support\<close> is true and to \<open>againstVotes\<close> otherwise, and changes
  nothing else.
\<close>

theorem vote_outcome:
  assumes "\<not> entered (dao w)" and "p = proposals (dao w) i"
  shows "(id_p p = 0 \<longrightarrow> vote e (token w) i support (dao w) = Inl ProposalNotFound)
    \<and> (id_p p \<noteq> 0 \<and> canceled p \<longrightarrow> vote e (token w) i support (dao w) = Inl ProposalCanceled)
    \<and> (id_p p \<noteq> 0 \<and> \<not> canceled p \<and> block_number e < startBlock p \<longrightarrow>
          vote e (token w) i support (dao w) = Inl VotingNotStarted)
    \<and> (id_p p \<noteq> 0 \<and> \<not> canceled p \<and> startBlock p \<le> block_number e
          \<and> endBlock p < block_number e \<longrightarrow>
          vote e (token w) i support (dao w) = Inl VotingClosed)
    \<and> (id_p p \<noteq> 0 \<and> \<not> canceled p \<and> startBlock p \<le> block_number e
          \<and> block_number e \<le> endBlock p \<and> hasVoted (dao w) i (msg_sender e) \<longrightarrow>
          vote e (token w) i support (dao w) = Inl AlreadyVoted)
    \<and> (id_p p \<noteq> 0 \<and> \<not> canceled p \<and> startBlock p \<le> block_number e
          \<and> block_number e \<le> endBlock p \<and> \<not> hasVoted (dao w) i (msg_sender e)
          \<and> getPastVotes e (token w) (msg_sender e) (snapshotBlock p) = Inr 0 \<longrightarrow>
          vote e (token w) i support (dao w) = Inl NoVotingPower)
    \<and> (isl (vote e (token w) i support (dao w)) \<longrightarrow> after w (e, Vote i support) = w)
    \<and> (\<forall>s'. vote e (token w) i support (dao w) = Inr s' \<longrightarrow>
          (\<exists>weight. getPastVotes e (token w) (msg_sender e) (snapshotBlock p) = Inr weight
             \<and> 0 < weight
             \<and> after w (e, Vote i support) = w\<lparr>dao := s'\<rparr>
             \<and> s' = (dao w)\<lparr>proposals := (proposals (dao w))(i :=
                         if support then p\<lparr>forVotes := forVotes p + weight\<rparr>
                         else p\<lparr>againstVotes := againstVotes p + weight\<rparr>),
                       hasVoted := (hasVoted (dao w))(i := (hasVoted (dao w) i)(msg_sender e := True))\<rparr>
             \<and> (support \<longrightarrow> unat (forVotes (proposals s' i)) = unat (forVotes p) + unat weight)
             \<and> (\<not> support \<longrightarrow>
                  unat (againstVotes (proposals s' i)) = unat (againstVotes p) + unat weight)))"
proof -
  let ?p = "proposals (dao w) i"
  let ?v = "vote e (token w) i support (dao w)"
  note u = vote_unfold [OF assms(1)]
  have 1: "id_p ?p = 0 \<longrightarrow> ?v = Inl ProposalNotFound"
    by (simp add: u Let_def)
  have 2: "id_p ?p \<noteq> 0 \<and> canceled ?p \<longrightarrow> ?v = Inl ProposalCanceled"
    by (simp add: u Let_def)
  have 3: "id_p ?p \<noteq> 0 \<and> \<not> canceled ?p \<and> block_number e < startBlock ?p \<longrightarrow> ?v = Inl VotingNotStarted"
    by (simp add: u Let_def linorder_not_le)
  have 4: "id_p ?p \<noteq> 0 \<and> \<not> canceled ?p \<and> startBlock ?p \<le> block_number e
          \<and> endBlock ?p < block_number e \<longrightarrow> ?v = Inl VotingClosed"
    by (simp add: u Let_def linorder_not_le)
  have 5: "id_p ?p \<noteq> 0 \<and> \<not> canceled ?p \<and> startBlock ?p \<le> block_number e
          \<and> block_number e \<le> endBlock ?p \<and> hasVoted (dao w) i (msg_sender e) \<longrightarrow>
          ?v = Inl AlreadyVoted"
    by (simp add: u Let_def)
  have 6: "id_p ?p \<noteq> 0 \<and> \<not> canceled ?p \<and> startBlock ?p \<le> block_number e
          \<and> block_number e \<le> endBlock ?p \<and> \<not> hasVoted (dao w) i (msg_sender e)
          \<and> getPastVotes e (token w) (msg_sender e) (snapshotBlock ?p) = Inr 0 \<longrightarrow>
          ?v = Inl NoVotingPower"
    by (simp add: u Let_def)
  have 7: "isl ?v \<longrightarrow> after w (e, Vote i support) = w"
    by (auto simp: after_vote isl_def)
  have 8: "\<forall>s'. ?v = Inr s' \<longrightarrow>
          (\<exists>weight. getPastVotes e (token w) (msg_sender e) (snapshotBlock ?p) = Inr weight
             \<and> 0 < weight
             \<and> after w (e, Vote i support) = w\<lparr>dao := s'\<rparr>
             \<and> s' = (dao w)\<lparr>proposals := (proposals (dao w))(i :=
                         if support then ?p\<lparr>forVotes := forVotes ?p + weight\<rparr>
                         else ?p\<lparr>againstVotes := againstVotes ?p + weight\<rparr>),
                       hasVoted := (hasVoted (dao w))(i := (hasVoted (dao w) i)(msg_sender e := True))\<rparr>
             \<and> (support \<longrightarrow> unat (forVotes (proposals s' i)) = unat (forVotes ?p) + unat weight)
             \<and> (\<not> support \<longrightarrow>
                  unat (againstVotes (proposals s' i)) = unat (againstVotes ?p) + unat weight))"
  proof (intro allI impI)
    fix s' assume v: "?v = Inr s'"
    then obtain weight where g: "getPastVotes e (token w) (msg_sender e) (snapshotBlock ?p) = Inr weight"
      and pos: "0 < weight"
      by (auto simp: u Let_def split: if_splits sum.splits)
    show "\<exists>weight. getPastVotes e (token w) (msg_sender e) (snapshotBlock ?p) = Inr weight
             \<and> 0 < weight
             \<and> after w (e, Vote i support) = w\<lparr>dao := s'\<rparr>
             \<and> s' = (dao w)\<lparr>proposals := (proposals (dao w))(i :=
                         if support then ?p\<lparr>forVotes := forVotes ?p + weight\<rparr>
                         else ?p\<lparr>againstVotes := againstVotes ?p + weight\<rparr>),
                       hasVoted := (hasVoted (dao w))(i := (hasVoted (dao w) i)(msg_sender e := True))\<rparr>
             \<and> (support \<longrightarrow> unat (forVotes (proposals s' i)) = unat (forVotes ?p) + unat weight)
             \<and> (\<not> support \<longrightarrow>
                  unat (againstVotes (proposals s' i)) = unat (againstVotes ?p) + unat weight)"
    proof (cases support)
      case True
      from v g pos True obtain x where c: "checked_add (forVotes ?p) weight = Inr x"
        and s': "s' = (dao w)\<lparr>proposals := (proposals (dao w))(i := ?p\<lparr>forVotes := x\<rparr>),
                       hasVoted := (hasVoted (dao w))(i := (hasVoted (dao w) i)(msg_sender e := True))\<rparr>"
        by (auto simp: u Let_def split: if_splits sum.splits)
      note a = checked_add_Inr [OF c]
      show ?thesis
        using g pos True v by (intro exI [of _ weight]) (simp add: s' a(1) a(4) [unfolded a(1)] after_vote)
    next
      case False
      from v g pos False obtain x where c: "checked_add (againstVotes ?p) weight = Inr x"
        and s': "s' = (dao w)\<lparr>proposals := (proposals (dao w))(i := ?p\<lparr>againstVotes := x\<rparr>),
                       hasVoted := (hasVoted (dao w))(i := (hasVoted (dao w) i)(msg_sender e := True))\<rparr>"
        by (auto simp: u Let_def split: if_splits sum.splits)
      note a = checked_add_Inr [OF c]
      show ?thesis
        using g pos False v by (intro exI [of _ weight]) (simp add: s' a(1) a(4) [unfolded a(1)] after_vote)
    qed
  qed
  show ?thesis
    unfolding assms(2)
    by (rule conjI [OF 1 conjI [OF 2 conjI [OF 3 conjI [OF 4 conjI [OF 5 conjI [OF 6 conjI [OF 7 8]]]]]]])
qed

section \<open>Entering the terminal states; the two parameters\<close>

lemma state_after_flag:
  assumes "id_p (proposals s i) \<noteq> 0"
  shows "\<not> executed (proposals s i) \<Longrightarrow>
           state e tok (s\<lparr>proposals := (proposals s)(i := (proposals s i)\<lparr>canceled := True\<rparr>)\<rparr>) i = Inr Canceled"
    and "\<not> canceled (proposals s i) \<Longrightarrow>
           state e tok (s\<lparr>proposals := (proposals s)(i := (proposals s i)\<lparr>executed := True\<rparr>)\<rparr>) i = Inr Executed"
  using assms by (simp_all add: state_def Let_def)

lemma state_live:
  "state e tok s i = Inr Active \<or> state e tok s i = Inr Succeeded \<or> state e tok s i = Inr Defeated \<Longrightarrow>
   id_p (proposals s i) \<noteq> 0 \<and> \<not> canceled (proposals s i) \<and> \<not> executed (proposals s i)"
  by (auto simp: state_def Let_def split: if_splits sum.splits)

lemma state_flagged:
  "state e tok s i = Inr Canceled \<or> state e tok s i = Inr Executed \<Longrightarrow>
   canceled (proposals s i) \<or> executed (proposals s i)"
  by (auto simp: state_def Let_def split: if_splits sum.splits)

lemma executeProposal_Inr:
  "executeProposal e tok i s = Inr s' \<longleftrightarrow>
     (\<not> entered s \<and> id_p (proposals s i) \<noteq> 0 \<and> \<not> canceled (proposals s i)
      \<and> \<not> executed (proposals s i) \<and> endBlock (proposals s i) < block_number e
      \<and> state e tok s i = Inr Succeeded
      \<and> s' = s\<lparr>proposals := (proposals s)(i := (proposals s i)\<lparr>executed := True\<rparr>)\<rparr>)"
proof (cases "entered s")
  case True
  then show ?thesis by (simp add: executeProposal_def nonReentrant_def)
next
  case False
  then show ?thesis
    by (auto simp: executeProposal_unfold [OF False] Let_def split: sum.splits)
qed

text \<open>
  C5, as amended. \<open>executeProposal\<close> succeeds exactly on an existing proposal that is
  neither canceled nor executed, whose window has closed and whose computed state is
  \<open>Succeeded\<close> (so never from \<open>Active\<close>), and leaves it \<open>Executed\<close>. \<open>cancelProposal\<close>, called
  by the owner, succeeds exactly on an existing proposal that is neither canceled nor
  executed, so from \<open>Active\<close>, from \<open>Succeeded\<close> and from \<open>Defeated\<close> alike, and leaves it
  \<open>Canceled\<close>; the state it found was \<open>Active\<close> while the window was open and not
  \<open>Active\<close> once it had closed. On a proposal that is \<open>Canceled\<close> or \<open>Executed\<close> both calls
  fail.
\<close>

theorem terminal_entry:
  "((\<exists>s'. executeProposal e tok i s = Inr s') \<longleftrightarrow>
      \<not> entered s \<and> id_p (proposals s i) \<noteq> 0 \<and> \<not> canceled (proposals s i)
      \<and> \<not> executed (proposals s i) \<and> endBlock (proposals s i) < block_number e
      \<and> state e tok s i = Inr Succeeded)
   \<and> (\<forall>s'. executeProposal e tok i s = Inr s' \<longrightarrow>
         state e tok s i = Inr Succeeded \<and> state e tok s i \<noteq> Inr Active
         \<and> state e tok s' i = Inr Executed)
   \<and> ((\<exists>s'. cancelProposal e i s = Inr s') \<longleftrightarrow>
         msg_sender e = owner s \<and> id_p (proposals s i) \<noteq> 0 \<and> \<not> canceled (proposals s i)
         \<and> \<not> executed (proposals s i))
   \<and> (\<forall>s'. cancelProposal e i s = Inr s' \<longrightarrow>
         state e tok s' i = Inr Canceled
         \<and> state e tok s i \<noteq> Inr Unknown \<and> state e tok s i \<noteq> Inr Canceled
         \<and> state e tok s i \<noteq> Inr Executed
         \<and> (block_number e \<le> endBlock (proposals s i) \<longrightarrow> state e tok s i = Inr Active)
         \<and> (endBlock (proposals s i) < block_number e \<longrightarrow> state e tok s i \<noteq> Inr Active))
   \<and> (msg_sender e = owner s
        \<and> (state e tok s i = Inr Active \<or> state e tok s i = Inr Succeeded
            \<or> state e tok s i = Inr Defeated) \<longrightarrow>
         (\<exists>s'. cancelProposal e i s = Inr s' \<and> state e tok s' i = Inr Canceled))
   \<and> (state e tok s i = Inr Canceled \<or> state e tok s i = Inr Executed \<longrightarrow>
         isl (cancelProposal e i s) \<and> isl (executeProposal e tok i s))"
proof -
  let ?p = "proposals s i"
  let ?x = "s\<lparr>proposals := (proposals s)(i := ?p\<lparr>executed := True\<rparr>)\<rparr>"
  let ?c = "s\<lparr>proposals := (proposals s)(i := ?p\<lparr>canceled := True\<rparr>)\<rparr>"
  have 1: "(\<exists>s'. executeProposal e tok i s = Inr s') \<longleftrightarrow>
      \<not> entered s \<and> id_p ?p \<noteq> 0 \<and> \<not> canceled ?p
      \<and> \<not> executed ?p \<and> endBlock ?p < block_number e
      \<and> state e tok s i = Inr Succeeded"
    by (simp add: executeProposal_Inr)
  have 2: "\<forall>s'. executeProposal e tok i s = Inr s' \<longrightarrow>
         state e tok s i = Inr Succeeded \<and> state e tok s i \<noteq> Inr Active
         \<and> state e tok s' i = Inr Executed"
    using state_after_flag(2) [of s i e tok] by (simp add: executeProposal_Inr)
  have 3: "(\<exists>s'. cancelProposal e i s = Inr s') \<longleftrightarrow>
         msg_sender e = owner s \<and> id_p ?p \<noteq> 0 \<and> \<not> canceled ?p \<and> \<not> executed ?p"
    by (simp add: cancelProposal_Inr)
  have 4: "\<forall>s'. cancelProposal e i s = Inr s' \<longrightarrow>
         state e tok s' i = Inr Canceled
         \<and> state e tok s i \<noteq> Inr Unknown \<and> state e tok s i \<noteq> Inr Canceled
         \<and> state e tok s i \<noteq> Inr Executed
         \<and> (block_number e \<le> endBlock ?p \<longrightarrow> state e tok s i = Inr Active)
         \<and> (endBlock ?p < block_number e \<longrightarrow> state e tok s i \<noteq> Inr Active)"
  proof (intro allI impI)
    fix s' assume "cancelProposal e i s = Inr s'"
    then have c: "id_p ?p \<noteq> 0" "\<not> canceled ?p" "\<not> executed ?p" and s': "s' = ?c"
      by (simp_all add: cancelProposal_Inr)
    have a: "state e tok s' i = Inr Canceled"
      unfolding s' by (rule state_after_flag(1) [OF c(1) c(3)])
    have b: "state e tok s i \<noteq> Inr Unknown \<and> state e tok s i \<noteq> Inr Canceled
         \<and> state e tok s i \<noteq> Inr Executed
         \<and> (block_number e \<le> endBlock ?p \<longrightarrow> state e tok s i = Inr Active)
         \<and> (endBlock ?p < block_number e \<longrightarrow> state e tok s i \<noteq> Inr Active)"
      using c by (auto simp: state_def Let_def linorder_not_le split: sum.splits)
    show "state e tok s' i = Inr Canceled
         \<and> state e tok s i \<noteq> Inr Unknown \<and> state e tok s i \<noteq> Inr Canceled
         \<and> state e tok s i \<noteq> Inr Executed
         \<and> (block_number e \<le> endBlock ?p \<longrightarrow> state e tok s i = Inr Active)
         \<and> (endBlock ?p < block_number e \<longrightarrow> state e tok s i \<noteq> Inr Active)"
      by (rule conjI [OF a b])
  qed
  have 5: "msg_sender e = owner s
        \<and> (state e tok s i = Inr Active \<or> state e tok s i = Inr Succeeded
            \<or> state e tok s i = Inr Defeated) \<longrightarrow>
         (\<exists>s'. cancelProposal e i s = Inr s' \<and> state e tok s' i = Inr Canceled)"
  proof
    assume h: "msg_sender e = owner s
        \<and> (state e tok s i = Inr Active \<or> state e tok s i = Inr Succeeded
            \<or> state e tok s i = Inr Defeated)"
    then have c: "id_p ?p \<noteq> 0" "\<not> canceled ?p" "\<not> executed ?p"
      using state_live [of e tok s i] by simp_all
    have "cancelProposal e i s = Inr ?c" using h c by (simp add: cancelProposal_Inr)
    moreover have "state e tok ?c i = Inr Canceled"
      by (rule state_after_flag(1) [OF c(1) c(3)])
    ultimately show "\<exists>s'. cancelProposal e i s = Inr s' \<and> state e tok s' i = Inr Canceled"
      by blast
  qed
  have 6: "state e tok s i = Inr Canceled \<or> state e tok s i = Inr Executed \<longrightarrow>
         isl (cancelProposal e i s) \<and> isl (executeProposal e tok i s)"
  proof
    assume "state e tok s i = Inr Canceled \<or> state e tok s i = Inr Executed"
    then have f: "canceled ?p \<or> executed ?p" by (rule state_flagged)
    have a: "isl (cancelProposal e i s)"
    proof (cases "cancelProposal e i s")
      case (Inr s')
      then show ?thesis using f by (simp add: cancelProposal_Inr)
    qed simp
    have b: "isl (executeProposal e tok i s)"
    proof (cases "executeProposal e tok i s")
      case (Inr s')
      then show ?thesis using f by (simp add: executeProposal_Inr)
    qed simp
    show "isl (cancelProposal e i s) \<and> isl (executeProposal e tok i s)"
      by (rule conjI [OF a b])
  qed
  show ?thesis
    by (rule conjI [OF 1 conjI [OF 2 conjI [OF 3 conjI [OF 4 conjI [OF 5 6]]]]])
qed

text \<open>
  The claim C5 as stated fails: after the window of the scenario, proposal 1 is
  \<open>Succeeded\<close>, and both its execution by anyone and its cancellation by the owner
  succeed; with the minority vote alone it is \<open>Defeated\<close>, and its cancellation
  succeeds.
\<close>

theorem terminal_from_active_only_counterexample:
  "outcome voted (from_at 9 16, ExecuteProposal 1) = Inr Done
   \<and> outcome voted (from_at 1 16, CancelProposal 1) = Inr Done
   \<and> state (from_at 9 16) (token voted) (dao voted) 1 = Inr Succeeded
   \<and> outcome outvoted (from_at 1 16, CancelProposal 1) = Inr Done
   \<and> state (from_at 1 16) (token outvoted) (dao outvoted) 1 = Inr Defeated"
  by code_simp

lemma outvoted_owner: "owner (dao outvoted) = 1"
  by code_simp

lemma voted_owner: "owner (dao voted) = 1"
  by code_simp

theorem terminal_entry_witness:
  "state (from_at 1 16) (token outvoted) (dao outvoted) 1 = Inr Defeated
   \<and> (\<exists>s'. cancelProposal (from_at 1 16) 1 (dao outvoted) = Inr s'
          \<and> state (from_at 1 16) (token outvoted) s' 1 = Inr Canceled)
   \<and> state (from_at 1 16) (token voted) (dao voted) 1 = Inr Succeeded
   \<and> (\<exists>s'. cancelProposal (from_at 1 16) 1 (dao voted) = Inr s'
          \<and> state (from_at 1 16) (token voted) s' 1 = Inr Canceled)
   \<and> state (from_at 1 13) (token voted) (dao voted) 1 = Inr Active
   \<and> (\<exists>s'. cancelProposal (from_at 1 13) 1 (dao voted) = Inr s'
          \<and> state (from_at 1 13) (token voted) s' 1 = Inr Canceled)
   \<and> isl (executeProposal (from_at 1 13) (token voted) 1 (dao voted))
   \<and> isl (executeProposal (from_at 1 16) (token outvoted) 1 (dao outvoted))
   \<and> (\<exists>s'. executeProposal (from_at 1 16) (token voted) 1 (dao voted) = Inr s'
          \<and> state (from_at 1 16) (token voted) s' 1 = Inr Executed)
   \<and> isl (cancelProposal (from_at 1 17) 1 (dao (run genesis (preparation @ ballots @ execution))))"
proof -
  have d: "state (from_at 1 16) (token outvoted) (dao outvoted) 1 = Inr Defeated" by code_simp
  have s: "state (from_at 1 16) (token voted) (dao voted) 1 = Inr Succeeded" by code_simp
  have a: "state (from_at 1 13) (token voted) (dao voted) 1 = Inr Active" by code_simp
  have x: "state (from_at 1 17) (token (run genesis (preparation @ ballots @ execution)))
             (dao (run genesis (preparation @ ballots @ execution))) 1 = Inr Executed"
    by code_simp
  have o: "msg_sender (from_at 1 16) = owner (dao outvoted)"
    "msg_sender (from_at 1 16) = owner (dao voted)" "msg_sender (from_at 1 13) = owner (dao voted)"
    by (simp_all add: from_at_def outvoted_owner voted_owner)
  have c: "\<not> entered (dao voted) \<and> id_p (proposals (dao voted) 1) \<noteq> 0
     \<and> \<not> canceled (proposals (dao voted) 1) \<and> \<not> executed (proposals (dao voted) 1)
     \<and> endBlock (proposals (dao voted) 1) < block_number (from_at 1 16)"
    by code_simp
  note t_def = terminal_entry [where e = "from_at 1 16" and tok = "token outvoted" and i = 1
      and s = "dao outvoted"]
  note t_suc = terminal_entry [where e = "from_at 1 16" and tok = "token voted" and i = 1
      and s = "dao voted"]
  note t_act = terminal_entry [where e = "from_at 1 13" and tok = "token voted" and i = 1
      and s = "dao voted"]
  note t_exe = terminal_entry [where e = "from_at 1 17"
      and tok = "token (run genesis (preparation @ ballots @ execution))" and i = 1
      and s = "dao (run genesis (preparation @ ballots @ execution))"]
  have 1: "\<exists>s'. cancelProposal (from_at 1 16) 1 (dao outvoted) = Inr s'
          \<and> state (from_at 1 16) (token outvoted) s' 1 = Inr Canceled"
    using t_def d o(1) by blast
  have 2: "\<exists>s'. cancelProposal (from_at 1 16) 1 (dao voted) = Inr s'
          \<and> state (from_at 1 16) (token voted) s' 1 = Inr Canceled"
    using t_suc s o(2) by blast
  have 3: "\<exists>s'. cancelProposal (from_at 1 13) 1 (dao voted) = Inr s'
          \<and> state (from_at 1 13) (token voted) s' 1 = Inr Canceled"
    using t_act a o(3) by blast
  have 4: "isl (executeProposal (from_at 1 13) (token voted) 1 (dao voted))"
  proof (cases "executeProposal (from_at 1 13) (token voted) 1 (dao voted)")
    case (Inr s')
    then show ?thesis using t_act a by auto
  qed simp
  have 5: "isl (executeProposal (from_at 1 16) (token outvoted) 1 (dao outvoted))"
  proof (cases "executeProposal (from_at 1 16) (token outvoted) 1 (dao outvoted)")
    case (Inr s')
    then show ?thesis using t_def d by auto
  qed simp
  have "\<exists>s'. executeProposal (from_at 1 16) (token voted) 1 (dao voted) = Inr s'"
    using t_suc s c by blast
  then have 6: "\<exists>s'. executeProposal (from_at 1 16) (token voted) 1 (dao voted) = Inr s'
          \<and> state (from_at 1 16) (token voted) s' 1 = Inr Executed"
    using t_suc by blast
  have 7: "isl (cancelProposal (from_at 1 17) 1 (dao (run genesis (preparation @ ballots @ execution))))"
    using t_exe x by blast
  show ?thesis using d 1 s 2 a 3 4 5 6 7 by blast
qed

text \<open>
  C7. A successful \<open>setQuorumNumerator\<close> writes the numerator and nothing else, and from
  then on \<open>state\<close> classifies every closed proposal, also one created before, with the
  new numerator. A successful \<open>setVotingPeriodBlocks\<close> writes the period and nothing
  else: snapshot, start and end of every stored proposal, and the result of \<open>state\<close>,
  are as before.
\<close>

theorem parameter_asymmetry:
  "(setQuorumNumerator e q s = Inr s' \<longrightarrow>
      s' = s\<lparr>quorumNumerator := q\<rparr>
      \<and> proposals s' = proposals s \<and> hasVoted s' = hasVoted s
      \<and> (\<forall>e' tok i. id_p (proposals s i) \<noteq> 0 \<and> \<not> canceled (proposals s i)
            \<and> \<not> executed (proposals s i) \<and> endBlock (proposals s i) < block_number e'
            \<and> snapshotBlock (proposals s i) < block_number e'
            \<and> uint (upperLookup (totalCheckpoints tok) (snapshotBlock (proposals s i))) * uint q < 2 ^ 256
            \<longrightarrow> state e' tok s' i = Inr (tally_spec
                   (unat (upperLookup (totalCheckpoints tok) (snapshotBlock (proposals s i))))
                   (unat q) (unat (forVotes (proposals s i))) (unat (againstVotes (proposals s i))))))
   \<and> (setVotingPeriodBlocks e n s = Inr s'' \<longrightarrow>
        s'' = s\<lparr>votingPeriodBlocks := n\<rparr>
        \<and> proposals s'' = proposals s \<and> hasVoted s'' = hasVoted s
        \<and> (\<forall>i. snapshotBlock (proposals s'' i) = snapshotBlock (proposals s i)
               \<and> startBlock (proposals s'' i) = startBlock (proposals s i)
               \<and> endBlock (proposals s'' i) = endBlock (proposals s i))
        \<and> (\<forall>e' tok i. state e' tok s'' i = state e' tok s i))"
proof -
  have 1: "setQuorumNumerator e q s = Inr s' \<longrightarrow>
      s' = s\<lparr>quorumNumerator := q\<rparr>
      \<and> proposals s' = proposals s \<and> hasVoted s' = hasVoted s
      \<and> (\<forall>e' tok i. id_p (proposals s i) \<noteq> 0 \<and> \<not> canceled (proposals s i)
            \<and> \<not> executed (proposals s i) \<and> endBlock (proposals s i) < block_number e'
            \<and> snapshotBlock (proposals s i) < block_number e'
            \<and> uint (upperLookup (totalCheckpoints tok) (snapshotBlock (proposals s i))) * uint q < 2 ^ 256
            \<longrightarrow> state e' tok s' i = Inr (tally_spec
                   (unat (upperLookup (totalCheckpoints tok) (snapshotBlock (proposals s i))))
                   (unat q) (unat (forVotes (proposals s i))) (unat (againstVotes (proposals s i)))))"
  proof
    assume "setQuorumNumerator e q s = Inr s'"
    then have s': "s' = s\<lparr>quorumNumerator := q\<rparr>" by (simp add: setQuorumNumerator_Inr)
    show "s' = s\<lparr>quorumNumerator := q\<rparr>
      \<and> proposals s' = proposals s \<and> hasVoted s' = hasVoted s
      \<and> (\<forall>e' tok i. id_p (proposals s i) \<noteq> 0 \<and> \<not> canceled (proposals s i)
            \<and> \<not> executed (proposals s i) \<and> endBlock (proposals s i) < block_number e'
            \<and> snapshotBlock (proposals s i) < block_number e'
            \<and> uint (upperLookup (totalCheckpoints tok) (snapshotBlock (proposals s i))) * uint q < 2 ^ 256
            \<longrightarrow> state e' tok s' i = Inr (tally_spec
                   (unat (upperLookup (totalCheckpoints tok) (snapshotBlock (proposals s i))))
                   (unat q) (unat (forVotes (proposals s i))) (unat (againstVotes (proposals s i)))))"
      unfolding s' using state_closed [of "s\<lparr>quorumNumerator := q\<rparr>"] by simp
  qed
  have 2: "setVotingPeriodBlocks e n s = Inr s'' \<longrightarrow>
        s'' = s\<lparr>votingPeriodBlocks := n\<rparr>
        \<and> proposals s'' = proposals s \<and> hasVoted s'' = hasVoted s
        \<and> (\<forall>i. snapshotBlock (proposals s'' i) = snapshotBlock (proposals s i)
               \<and> startBlock (proposals s'' i) = startBlock (proposals s i)
               \<and> endBlock (proposals s'' i) = endBlock (proposals s i))
        \<and> (\<forall>e' tok i. state e' tok s'' i = state e' tok s i)"
    by (auto simp: setVotingPeriodBlocks_Inr state_def Let_def cong: sum.case_cong if_cong)
  show ?thesis by (rule conjI [OF 1 2])
qed

section \<open>Voting and the parameters on the scenario\<close>

theorem vote_outcome_witness:
  "\<not> entered (dao voted)
   \<and> vote (from_at 2 13) (token voted) 1 True (dao voted) = Inl AlreadyVoted
   \<and> after voted (from_at 2 13, Vote 1 True) = voted
   \<and> vote (from_at 9 13) (token voted) 1 True (dao voted) = Inl NoVotingPower
   \<and> (\<exists>s'. vote (from_at 4 13) (token voted) 1 False (dao voted) = Inr s'
          \<and> hasVoted s' 1 4 \<and> unat (againstVotes (proposals s' 1)) = 350000
          \<and> forVotes (proposals s' 1) = 300000)"
proof -
  have a: "id_p (proposals (dao voted) 1) \<noteq> 0 \<and> \<not> canceled (proposals (dao voted) 1)
     \<and> startBlock (proposals (dao voted) 1) \<le> block_number (from_at 2 13)
     \<and> block_number (from_at 2 13) \<le> endBlock (proposals (dao voted) 1)
     \<and> hasVoted (dao voted) 1 (msg_sender (from_at 2 13))"
    by code_simp
  have b: "id_p (proposals (dao voted) 1) \<noteq> 0 \<and> \<not> canceled (proposals (dao voted) 1)
     \<and> startBlock (proposals (dao voted) 1) \<le> block_number (from_at 9 13)
     \<and> block_number (from_at 9 13) \<le> endBlock (proposals (dao voted) 1)
     \<and> \<not> hasVoted (dao voted) 1 (msg_sender (from_at 9 13))
     \<and> getPastVotes (from_at 9 13) (token voted) (msg_sender (from_at 9 13))
          (snapshotBlock (proposals (dao voted) 1)) = Inr 0"
    by code_simp
  note v = vote_outcome [OF voted_latch refl, where i = 1 and support = True]
  have 1: "vote (from_at 2 13) (token voted) 1 True (dao voted) = Inl AlreadyVoted"
    using v [where e = "from_at 2 13"] a by blast
  then have "isl (vote (from_at 2 13) (token voted) 1 True (dao voted))" by simp
  then have 2: "after voted (from_at 2 13, Vote 1 True) = voted"
    using v [where e = "from_at 2 13"] by blast
  have 3: "vote (from_at 9 13) (token voted) 1 True (dao voted) = Inl NoVotingPower"
    using v [where e = "from_at 9 13"] b by blast
  have c: "\<not> isl (vote (from_at 4 13) (token voted) 1 False (dao voted))" by code_simp
  have g: "getPastVotes (from_at 4 13) (token voted) (msg_sender (from_at 4 13))
             (snapshotBlock (proposals (dao voted) 1)) = Inr 300000"
    by code_simp
  from c obtain s' where s': "vote (from_at 4 13) (token voted) 1 False (dao voted) = Inr s'"
    by (cases "vote (from_at 4 13) (token voted) 1 False (dao voted)") simp_all
  from vote_outcome [OF voted_latch refl, where i = 1 and support = False and e = "from_at 4 13"] s'
  obtain weight where w:
    "getPastVotes (from_at 4 13) (token voted) (msg_sender (from_at 4 13))
       (snapshotBlock (proposals (dao voted) 1)) = Inr weight"
    "s' = (dao voted)\<lparr>proposals := (proposals (dao voted))(1 :=
             if False then (proposals (dao voted) 1)\<lparr>forVotes := forVotes (proposals (dao voted) 1) + weight\<rparr>
             else (proposals (dao voted) 1)\<lparr>againstVotes := againstVotes (proposals (dao voted) 1) + weight\<rparr>),
           hasVoted := (hasVoted (dao voted))(1 := (hasVoted (dao voted) 1)(msg_sender (from_at 4 13) := True))\<rparr>"
    "unat (againstVotes (proposals s' 1)) = unat (againstVotes (proposals (dao voted) 1)) + unat weight"
    by blast
  have weight: "weight = 300000" using w(1) g by simp
  have 4: "hasVoted s' 1 4 \<and> unat (againstVotes (proposals s' 1)) = 350000
           \<and> forVotes (proposals s' 1) = 300000"
    using w(3) by (simp add: w(2) weight voted_proposal from_at_def)
  show ?thesis using voted_latch 1 2 3 s' 4 by blast
qed

lemma voted_supply_lookup: "upperLookup (totalCheckpoints (token voted)) 10 = 1000000"
  by code_simp

theorem parameter_asymmetry_witness:
  "setQuorumNumerator (from_at 1 17) 90 (dao voted) = Inr ((dao voted)\<lparr>quorumNumerator := 90\<rparr>)
   \<and> state (from_at 9 16) (token voted) (dao voted) 1 = Inr Succeeded
   \<and> state (from_at 9 18) (token voted) ((dao voted)\<lparr>quorumNumerator := 90\<rparr>) 1 = Inr Defeated
   \<and> setVotingPeriodBlocks (from_at 1 17) 50 (dao voted) = Inr ((dao voted)\<lparr>votingPeriodBlocks := 50\<rparr>)
   \<and> state (from_at 9 16) (token voted) ((dao voted)\<lparr>votingPeriodBlocks := 50\<rparr>) 1 = Inr Succeeded"
proof -
  have a: "setQuorumNumerator (from_at 1 17) 90 (dao voted) = Inr ((dao voted)\<lparr>quorumNumerator := 90\<rparr>)"
    by (simp add: setQuorumNumerator_Inr voted_owner from_at_def QUORUM_DENOMINATOR_def)
  have b: "state (from_at 9 16) (token voted) (dao voted) 1 = Inr Succeeded"
    using voted_succeeded by simp
  have c: "state (from_at 9 18) (token voted) ((dao voted)\<lparr>quorumNumerator := 90\<rparr>) 1 = Inr Defeated"
    using parameter_asymmetry [where e = "from_at 1 17" and q = 90 and s = "dao voted"
        and s' = "(dao voted)\<lparr>quorumNumerator := 90\<rparr>"] a
    by (simp add: voted_proposal voted_supply_lookup tally_spec_def requiredQuorum_spec_def from_at_def)
  have d: "setVotingPeriodBlocks (from_at 1 17) 50 (dao voted) = Inr ((dao voted)\<lparr>votingPeriodBlocks := 50\<rparr>)"
    by (simp add: setVotingPeriodBlocks_Inr voted_owner from_at_def)
  have e: "state (from_at 9 16) (token voted) ((dao voted)\<lparr>votingPeriodBlocks := 50\<rparr>) 1 = Inr Succeeded"
    using parameter_asymmetry [where e = "from_at 1 17" and n = 50 and s = "dao voted"
        and s'' = "(dao voted)\<lparr>votingPeriodBlocks := 50\<rparr>"] d b
    by simp
  show ?thesis using a b c d e by simp
qed

end
